theory Spec2Isabelle
  imports Complex_Main
begin

section \<open>Arrays\<close>

text \<open>
  The program works on JAX arrays. An array is modelled by its shape, its element type
  and its elements in row-major order. Elements are exact complex numbers: rounding is
  not modelled, the element type is kept as a tag because the code branches on it
  (\<open>finfo(float_dtype).eps\<close>, \<open>kernel.astype(data.dtype)\<close>).
  An array of a real element type holds numbers with imaginary part 0.
\<close>

datatype error = NotImplementedError | ValueError

datatype dtype = Float32 | Float64 | Complex64 | Complex128

record ndarray =
  shape :: "nat list"
  dtype :: dtype
  elems :: "complex list"

definition ndim :: "ndarray \<Rightarrow> nat" where
  "ndim a = length (shape a)"

definition asize :: "ndarray \<Rightarrow> nat" where
  "asize a = prod_list (shape a)"

fun is_complex :: "dtype \<Rightarrow> bool" where
  "is_complex Float32 = False"
| "is_complex Float64 = False"
| "is_complex Complex64 = True"
| "is_complex Complex128 = True"

fun is_double :: "dtype \<Rightarrow> bool" where
  "is_double Float32 = False"
| "is_double Float64 = True"
| "is_double Complex64 = False"
| "is_double Complex128 = True"

text \<open>\<open>x.real.dtype\<close>: the real type of the same precision.\<close>

fun real_dtype :: "dtype \<Rightarrow> dtype" where
  "real_dtype Float32 = Float32"
| "real_dtype Float64 = Float64"
| "real_dtype Complex64 = Float32"
| "real_dtype Complex128 = Float64"

text \<open>The complex type of the same precision (the element type of a DFT's output).\<close>

fun complex_dtype :: "dtype \<Rightarrow> dtype" where
  "complex_dtype Float32 = Complex64"
| "complex_dtype Float64 = Complex128"
| "complex_dtype Complex64 = Complex64"
| "complex_dtype Complex128 = Complex128"

text \<open>\<open>jax.dtypes.result_type\<close> on the four floating types: the wider precision, complex
  as soon as one argument is.\<close>

definition result_type :: "dtype \<Rightarrow> dtype \<Rightarrow> dtype" where
  "result_type a b =
     (if is_complex a \<or> is_complex b
      then (if is_double a \<or> is_double b then Complex128 else Complex64)
      else (if is_double a \<or> is_double b then Float64 else Float32))"

text \<open>\<open>jnp.finfo(dt).eps\<close>.\<close>

definition finfo_eps :: "dtype \<Rightarrow> real" where
  "finfo_eps dt = (if is_double dt then 1 / 2 ^ 52 else 1 / 2 ^ 23)"

subsection \<open>Indexing\<close>

fun ravel_multi_index :: "nat list \<Rightarrow> nat list \<Rightarrow> nat" where
  "ravel_multi_index (i # is) (n # ns) = i * prod_list ns + ravel_multi_index is ns"
| "ravel_multi_index _ _ = 0"

fun unravel_index :: "nat \<Rightarrow> nat list \<Rightarrow> nat list" where
  "unravel_index i [] = []"
| "unravel_index i (n # ns) = (i div prod_list ns) # unravel_index (i mod prod_list ns) ns"

text \<open>A multi-index is valid for a shape when it has one component per axis, each below
  the axis length.\<close>

definition valid_index :: "nat list \<Rightarrow> nat list \<Rightarrow> bool" where
  "valid_index ix shp = list_all2 (<) ix shp"

text \<open>\<open>a[ix]\<close> for a full multi-index. The program only indexes with indices it got from
  \<open>unravel_index\<close> or from a loop over the shape, which are valid; no theorem below
  reads an array outside its shape.\<close>

definition item :: "ndarray \<Rightarrow> nat list \<Rightarrow> complex" where
  "item a ix = elems a ! ravel_multi_index ix (shape a)"

text \<open>The array of a given shape whose entry at \<open>ix\<close> is \<open>f ix\<close>.\<close>

definition tabulate :: "nat list \<Rightarrow> dtype \<Rightarrow> (nat list \<Rightarrow> complex) \<Rightarrow> ndarray" where
  "tabulate shp dt f =
     \<lparr>shape = shp, dtype = dt, elems = map (\<lambda>i. f (unravel_index i shp)) [0..<prod_list shp]\<rparr>"

text \<open>An array is well formed when it has as many elements as its shape says.\<close>

definition well_formed :: "ndarray \<Rightarrow> bool" where
  "well_formed a = (length (elems a) = prod_list (shape a))"

definition sum_upto :: "nat \<Rightarrow> (nat \<Rightarrow> complex) \<Rightarrow> complex" where
  "sum_upto n f = sum_list (map f [0..<n])"

text \<open>The sum of \<open>f\<close> over all multi-indices of a shape.\<close>

fun multisum :: "nat list \<Rightarrow> (nat list \<Rightarrow> complex) \<Rightarrow> complex" where
  "multisum [] f = f []"
| "multisum (n # ns) f = sum_upto n (\<lambda>j. multisum ns (\<lambda>js. f (j # js)))"

subsection \<open>The array primitives the program calls\<close>

definition conj :: "ndarray \<Rightarrow> ndarray" where
  "conj a = a\<lparr>elems := map cnj (elems a)\<rparr>"

text \<open>Elementwise product of two arrays of the same shape (the program multiplies no
  others, so broadcasting is not modelled).\<close>

definition multiply :: "ndarray \<Rightarrow> ndarray \<Rightarrow> ndarray" where
  "multiply a b =
     \<lparr>shape = shape a, dtype = result_type (dtype a) (dtype b),
      elems = map2 (*) (elems a) (elems b)\<rparr>"

text \<open>\<open>jnp.abs\<close>, as the list of magnitudes.\<close>

definition absolute :: "ndarray \<Rightarrow> real list" where
  "absolute a = map cmod (elems a)"

text \<open>\<open>a.astype(dt)\<close>: a cast to a real type keeps the real part.\<close>

definition astype :: "ndarray \<Rightarrow> dtype \<Rightarrow> ndarray" where
  "astype a dt =
     a\<lparr>dtype := dt,
       elems := (if is_complex dt then elems a else map (\<lambda>z. complex_of_real (Re z)) (elems a))\<rparr>"

text \<open>The phase of the DFT at output index \<open>k\<close> and input index \<open>n\<close>:
  \<open>sum_d k_d * n_d / N_d\<close>.\<close>

fun dft_phase :: "nat list \<Rightarrow> nat list \<Rightarrow> nat list \<Rightarrow> real" where
  "dft_phase (N # Ns) (k # ks) (n # ns) = real (k * n) / real N + dft_phase Ns ks ns"
| "dft_phase _ _ _ = 0"

text \<open>\<open>jnp.fft.fftn\<close> and \<open>jnp.fft.ifftn\<close> over all axes, by their defining sums.\<close>

definition fftn :: "ndarray \<Rightarrow> ndarray" where
  "fftn a = tabulate (shape a) (complex_dtype (dtype a))
     (\<lambda>k. multisum (shape a) (\<lambda>n. item a n * cis (- (2 * pi * dft_phase (shape a) k n))))"

definition ifftn :: "ndarray \<Rightarrow> ndarray" where
  "ifftn a = tabulate (shape a) (complex_dtype (dtype a))
     (\<lambda>k. multisum (shape a) (\<lambda>n. item a n * cis (2 * pi * dft_phase (shape a) k n))
          / of_nat (asize a))"

text \<open>\<open>jnp.argmax\<close> of a flat list: the first index of the largest value; an empty input
  raises \<open>ValueError\<close>.\<close>

fun argmax_from :: "real list \<Rightarrow> nat \<Rightarrow> nat \<Rightarrow> real \<Rightarrow> nat" where
  "argmax_from [] i best v = best"
| "argmax_from (x # xs) i best v =
     (if v < x then argmax_from xs (Suc i) i x else argmax_from xs (Suc i) best v)"

fun argmax :: "real list \<Rightarrow> error + nat" where
  "argmax [] = Inl ValueError"
| "argmax (x # xs) = Inr (argmax_from xs 1 0 x)"

text \<open>\<open>jnp.tensordot(a, b, axes=(1, -1))\<close> for a matrix \<open>a\<close>: the last axis of \<open>b\<close> is
  summed against the second axis of \<open>a\<close>, and the first axis of \<open>a\<close> becomes the first
  axis of the result: \<open>result[k, ix] = sum_j a[k, j] * b[ix, j]\<close>.\<close>

definition tensordot :: "ndarray \<Rightarrow> ndarray \<Rightarrow> ndarray" where
  "tensordot a b =
     tabulate (hd (shape a) # butlast (shape b)) (result_type (dtype a) (dtype b))
       (\<lambda>ix. sum_upto (last (shape b)) (\<lambda>j. item a [hd ix, j] * item b (tl ix @ [j])))"

text \<open>\<open>jnp.fft.fftfreq(n, d)\<close>: the sample frequencies \<open>0, 1, ..., (n-1)//2, -(n//2), ..., -1\<close>
  divided by \<open>n * d\<close>.\<close>

definition fftfreq :: "nat \<Rightarrow> real \<Rightarrow> real list" where
  "fftfreq n d =
     map (\<lambda>j. (if j < (n - 1) div 2 + 1 then real j else real j - real n) / (real n * d)) [0..<n]"

section \<open>The upsampled DFT\<close>

text \<open>\<open>upsampled_region_size\<close> is one integer or a sequence of integers.\<close>

datatype size_arg = Single nat | Sizes "nat list"

definition im2pi :: complex where
  "im2pi = \<i> * 2 * complex_of_real pi"

text \<open>Lines 73 to 76: the kernel of one axis, a matrix of shape
  \<open>(ups_size, n_items)\<close>.\<close>

definition dft_kernel :: "nat \<Rightarrow> nat \<Rightarrow> real \<Rightarrow> real \<Rightarrow> ndarray" where
  "dft_kernel n_items ups_size ax_offset upsample_factor =
     tabulate [ups_size, n_items] Complex128
       (\<lambda>ix. exp (- im2pi * complex_of_real
                 ((real (ix ! 0) - ax_offset) * (fftfreq n_items upsample_factor ! (ix ! 1)))))"

text \<open>Lines 72 to 82: the loop over the reversed \<open>dim_properties\<close>.\<close>

fun upsampled_dft_loop :: "(nat \<times> nat \<times> real) list \<Rightarrow> real \<Rightarrow> ndarray \<Rightarrow> ndarray" where
  "upsampled_dft_loop [] upsample_factor data = data"
| "upsampled_dft_loop ((n_items, ups_size, ax_offset) # rest) upsample_factor data =
     upsampled_dft_loop rest upsample_factor
       (tensordot (astype (dft_kernel n_items ups_size ax_offset upsample_factor) (dtype data)) data)"

definition upsampled_dft ::
  "ndarray \<Rightarrow> size_arg \<Rightarrow> real \<Rightarrow> real list option \<Rightarrow> error + ndarray" where
  "upsampled_dft data upsampled_region_size upsample_factor axis_offsets =
     (case (case upsampled_region_size of
              Single r \<Rightarrow> Inr (replicate (ndim data) r)
            | Sizes rs \<Rightarrow> if length rs \<noteq> ndim data then Inl ValueError else Inr rs) of
        Inl e \<Rightarrow> Inl e
      | Inr sizes \<Rightarrow>
          (case (case axis_offsets of
                   None \<Rightarrow> Inr (replicate (ndim data) 0)
                 | Some os \<Rightarrow> if length os \<noteq> ndim data then Inl ValueError else Inr os) of
             Inl e \<Rightarrow> Inl e
           | Inr offs \<Rightarrow>
               Inr (upsampled_dft_loop (rev (zip (shape data) (zip sizes offs)))
                      upsample_factor data)))"

text \<open>The region size and the offset of every axis, as the function expands its
  arguments (lines 46 to 66).\<close>

definition region_sizes :: "ndarray \<Rightarrow> size_arg \<Rightarrow> nat list" where
  "region_sizes data upsampled_region_size =
     (case upsampled_region_size of Single r \<Rightarrow> replicate (ndim data) r | Sizes rs \<Rightarrow> rs)"

definition offsets_of :: "ndarray \<Rightarrow> real list option \<Rightarrow> real list" where
  "offsets_of data axis_offsets =
     (case axis_offsets of None \<Rightarrow> replicate (ndim data) 0 | Some os \<Rightarrow> os)"

section \<open>Phase cross-correlation\<close>

text \<open>
  The error is a floating-point number that can be NaN or infinite: dividing by a zero
  amplitude product gives NaN for a zero numerator and an infinity otherwise.
\<close>

datatype fval = Finite real | PosInf | NaN

definition compute_error :: "complex \<Rightarrow> real \<Rightarrow> real \<Rightarrow> fval" where
  "compute_error cross_correlation_max src_amp target_amp =
     (let amp = src_amp * target_amp in
      if amp = 0
      then (if cross_correlation_max * cnj cross_correlation_max = 0 then NaN else PosInf)
      else Finite (sqrt (cmod (1 - cross_correlation_max * cnj cross_correlation_max
                                     / complex_of_real amp))))"

definition arctan2 :: "real \<Rightarrow> real \<Rightarrow> real" where
  "arctan2 y x =
     (if 0 < x then arctan (y / x)
      else if x < 0 then (if 0 \<le> y then arctan (y / x) + pi else arctan (y / x) - pi)
      else if 0 < y then pi / 2 else if y < 0 then - (pi / 2) else 0)"

definition compute_phasediff :: "complex \<Rightarrow> real" where
  "compute_phasediff cross_correlation_max =
     arctan2 (Im cross_correlation_max) (Re cross_correlation_max)"

text \<open>\<open>jnp.round\<close> rounds halves to the even neighbour.\<close>

definition round_half_even :: "real \<Rightarrow> real" where
  "round_half_even x =
     (let f = \<lfloor>x\<rfloor>; d = x - of_int f in
      if d < 1 / 2 then of_int f
      else if 1 / 2 < d then of_int (f + 1)
      else if even f then of_int f else of_int (f + 1))"

text \<open>The numeric steps the function performs, recorded in the order it performs them.\<close>

datatype numeric_op = FFTN | Multiply | Divide | IFFTN | ArgMax | Sum | UpsampledDFT

type_synonym registration = "real list \<times> fval \<times> real"

text \<open>Lines 240 to 244: the index of the maximum as a signed shift.\<close>

definition integer_shift :: "nat list \<Rightarrow> nat list \<Rightarrow> real list" where
  "integer_shift maxima shp =
     map2 (\<lambda>m s. if real_of_int \<lfloor>real s / 2\<rfloor> < real m then real m - real s else real m)
       maxima shp"

text \<open>\<open>jnp.sum(jnp.real(f * f.conj()))\<close>.\<close>

definition intensity :: "ndarray \<Rightarrow> real" where
  "intensity f = sum_list (map Re (elems (multiply f (conj f))))"

text \<open>Lines 280 to 291.\<close>

definition pcc_finish ::
  "numeric_op list \<Rightarrow> nat list \<Rightarrow> real list \<Rightarrow> complex \<Rightarrow> real \<Rightarrow> real \<Rightarrow> bool
   \<Rightarrow> numeric_op list \<times> (error + registration)" where
  "pcc_finish ops shp shift CCmax src_amp target_amp disambiguate =
     (let shift = map2 (\<lambda>n s. if n = 1 then 0 else s) shp shift in
      if disambiguate then (ops, Inl NotImplementedError)
      else (ops, Inr (shift, compute_error CCmax src_amp target_amp, compute_phasediff CCmax)))"

text \<open>Line 256: \<open>ceil(upsample_factor * 1.5)\<close>, and line 258:
  \<open>floor(upsampled_region_size / 2.0)\<close>.\<close>

definition upsampled_region_size :: "int \<Rightarrow> int" where
  "upsampled_region_size upsample_factor = \<lceil>real_of_int upsample_factor * 1.5\<rceil>"

definition dftshift :: "int \<Rightarrow> int" where
  "dftshift upsample_factor = \<lfloor>real_of_int (upsampled_region_size upsample_factor) / 2.0\<rfloor>"

text \<open>Line 255: the integer estimate rounded on the upsampled grid.\<close>

definition round_shift :: "int \<Rightarrow> real list \<Rightarrow> real list" where
  "round_shift upsample_factor shift =
     map (\<lambda>s. round_half_even (s * of_int upsample_factor) / of_int upsample_factor) shift"

text \<open>Line 260.\<close>

definition sample_region_offset :: "int \<Rightarrow> real list \<Rightarrow> real list" where
  "sample_region_offset upsample_factor shift =
     map (\<lambda>s. real_of_int (dftshift upsample_factor) - s * of_int upsample_factor) shift"

text \<open>Lines 273 to 275: the maximum of the patch, brought back to pixels and added.\<close>

definition refine_shift :: "int \<Rightarrow> real list \<Rightarrow> nat list \<Rightarrow> real list" where
  "refine_shift upsample_factor shift maxima =
     map2 (\<lambda>s m. s + (real m - real_of_int (dftshift upsample_factor)) / of_int upsample_factor)
       shift maxima"

text \<open>Lines 253 to 278: the branch taken when \<open>upsample_factor\<close> is not 1.\<close>

definition pcc_refine ::
  "numeric_op list \<Rightarrow> ndarray \<Rightarrow> ndarray \<Rightarrow> ndarray \<Rightarrow> int \<Rightarrow> bool \<Rightarrow> real list
   \<Rightarrow> numeric_op list \<times> (error + registration)" where
  "pcc_refine ops1 src_freq target_freq image_product upsample_factor disambiguate shift0 =
     (let shift = round_shift upsample_factor shift0;
          ops2 = ops1 @ [UpsampledDFT]
      in (case upsampled_dft (conj image_product)
                 (Single (nat (upsampled_region_size upsample_factor)))
                 (of_int upsample_factor)
                 (Some (sample_region_offset upsample_factor shift)) of
            Inl e \<Rightarrow> (ops2, Inl e)
          | Inr y \<Rightarrow>
              (let cross_correlation = conj y;
                   ops3 = ops2 @ [ArgMax]
               in (case argmax (absolute cross_correlation) of
                     Inl e \<Rightarrow> (ops3, Inl e)
                   | Inr am \<Rightarrow>
                       (let maxima = unravel_index am (shape cross_correlation);
                            CCmax = item cross_correlation maxima;
                            shift = refine_shift upsample_factor shift maxima;
                            src_amp = intensity src_freq;
                            target_amp = intensity target_freq
                        in pcc_finish (ops3 @ [Multiply, Sum, Multiply, Sum]) (shape src_freq)
                             shift CCmax src_amp target_amp disambiguate)))))"

text \<open>Lines 234 to 251, then the branch on \<open>upsample_factor\<close>.\<close>

definition pcc_locate ::
  "numeric_op list \<Rightarrow> ndarray \<Rightarrow> ndarray \<Rightarrow> ndarray \<Rightarrow> int \<Rightarrow> bool
   \<Rightarrow> numeric_op list \<times> (error + registration)" where
  "pcc_locate ops0 src_freq target_freq image_product upsample_factor disambiguate =
     (let cross_correlation = ifftn image_product;
          ops1 = ops0 @ [IFFTN, ArgMax]
      in (case argmax (absolute cross_correlation) of
            Inl e \<Rightarrow> (ops1, Inl e)
          | Inr am \<Rightarrow>
              (let maxima = unravel_index am (shape cross_correlation);
                   shp = shape src_freq;
                   shift = integer_shift maxima shp
               in if upsample_factor = 1 then
                    (let src_amp = intensity src_freq / real (asize src_freq);
                         target_amp = intensity target_freq / real (asize target_freq);
                         CCmax = item cross_correlation maxima
                     in pcc_finish (ops1 @ [Multiply, Sum, Multiply, Sum]) shp shift CCmax
                          src_amp target_amp disambiguate)
                  else pcc_refine ops1 src_freq target_freq image_product upsample_factor
                         disambiguate shift)))"

text \<open>Lines 229 to 230: the product divided, element by element, by the larger of its
  magnitude and \<open>100 * eps\<close>.\<close>

definition phase_normalize :: "ndarray \<Rightarrow> dtype \<Rightarrow> ndarray" where
  "phase_normalize image_product float_dtype =
     (let eps = finfo_eps float_dtype in
      image_product
        \<lparr>elems := map2 (\<lambda>z r. z / complex_of_real (max r (100 * eps)))
                    (elems image_product) (absolute image_product)\<rparr>)"

text \<open>Lines 225 to 232.\<close>

definition pcc_product ::
  "numeric_op list \<Rightarrow> ndarray \<Rightarrow> ndarray \<Rightarrow> dtype \<Rightarrow> int \<Rightarrow> bool \<Rightarrow> string option
   \<Rightarrow> numeric_op list \<times> (error + registration)" where
  "pcc_product ops0 src_freq target_freq float_dtype upsample_factor disambiguate normalization =
     (let image_product = multiply src_freq (conj target_freq);
          ops1 = ops0 @ [Multiply]
      in if normalization = Some ''phase'' then
           pcc_locate (ops1 @ [Divide]) src_freq target_freq
             (phase_normalize image_product float_dtype) upsample_factor disambiguate
         else if normalization \<noteq> None then (ops1, Inl ValueError)
         else pcc_locate ops1 src_freq target_freq image_product upsample_factor disambiguate)"

text \<open>\<open>str.lower\<close> on the ASCII letters (no other character lowers to a letter of
  \<open>real\<close> or \<open>fourier\<close>).\<close>

definition lower_char :: "char \<Rightarrow> char" where
  "lower_char c =
     (case map_of (zip ''ABCDEFGHIJKLMNOPQRSTUVWXYZ'' ''abcdefghijklmnopqrstuvwxyz'') c of
        Some l \<Rightarrow> l
      | None \<Rightarrow> c)"

definition lower :: "string \<Rightarrow> string" where
  "lower s = map lower_char s"

text \<open>Lines 203 to 223, then the rest of the function. The result is paired with the
  numeric steps performed up to the return or the raise.\<close>

definition phase_cross_correlation_traced ::
  "ndarray \<Rightarrow> ndarray \<Rightarrow> int \<Rightarrow> string \<Rightarrow> bool \<Rightarrow> ndarray option \<Rightarrow> ndarray option
   \<Rightarrow> real \<Rightarrow> string option \<Rightarrow> numeric_op list \<times> (error + registration)" where
  "phase_cross_correlation_traced reference_image moving_image upsample_factor space
     disambiguate reference_mask moving_mask overlap_ratio normalization =
     (if reference_mask \<noteq> None \<or> moving_mask \<noteq> None then ([], Inl NotImplementedError)
      else
        let float_dtype = result_type (real_dtype (dtype reference_image))
                            (real_dtype (dtype moving_image))
        in if shape reference_image \<noteq> shape moving_image then ([], Inl ValueError)
           else if lower space = ''fourier'' then
             pcc_product [] reference_image moving_image float_dtype upsample_factor
               disambiguate normalization
           else if lower space = ''real'' then
             pcc_product [FFTN, FFTN] (fftn reference_image) (fftn moving_image) float_dtype
               upsample_factor disambiguate normalization
           else ([], Inl ValueError))"

definition phase_cross_correlation ::
  "ndarray \<Rightarrow> ndarray \<Rightarrow> int \<Rightarrow> string \<Rightarrow> bool \<Rightarrow> ndarray option \<Rightarrow> ndarray option
   \<Rightarrow> real \<Rightarrow> string option \<Rightarrow> error + registration" where
  "phase_cross_correlation reference_image moving_image upsample_factor space
     disambiguate reference_mask moving_mask overlap_ratio normalization =
     snd (phase_cross_correlation_traced reference_image moving_image upsample_factor space
            disambiguate reference_mask moving_mask overlap_ratio normalization)"

section \<open>Names for the intermediate values\<close>

text \<open>Lines 215 to 223: the spectra the function works on, for a valid \<open>space\<close>.\<close>

definition spectrum :: "string \<Rightarrow> ndarray \<Rightarrow> ndarray" where
  "spectrum space img = (if lower space = ''fourier'' then img else fftn img)"

text \<open>Lines 226 to 232: the cross-power spectrum, for a valid \<open>normalization\<close>.\<close>

definition cross_power :: "ndarray \<Rightarrow> ndarray \<Rightarrow> dtype \<Rightarrow> string option \<Rightarrow> ndarray" where
  "cross_power src_freq target_freq float_dtype normalization =
     (if normalization = Some ''phase''
      then phase_normalize (multiply src_freq (conj target_freq)) float_dtype
      else multiply src_freq (conj target_freq))"

text \<open>Line 205.\<close>

definition float_dtype_of :: "ndarray \<Rightarrow> ndarray \<Rightarrow> dtype" where
  "float_dtype_of reference_image moving_image =
     result_type (real_dtype (dtype reference_image)) (real_dtype (dtype moving_image))"

text \<open>
  A valid call: no mask, images of equal shape with at least one element, holding as many
  elements as their shape says, an upsampling factor of at least one, a known \<open>space\<close>
  and a known \<open>normalization\<close>.
\<close>

definition valid_call ::
  "ndarray \<Rightarrow> ndarray \<Rightarrow> int \<Rightarrow> string \<Rightarrow> string option \<Rightarrow> bool" where
  "valid_call reference_image moving_image upsample_factor space normalization =
     (shape reference_image = shape moving_image
      \<and> 0 < prod_list (shape reference_image)
      \<and> well_formed reference_image \<and> well_formed moving_image
      \<and> 1 \<le> upsample_factor
      \<and> (lower space = ''fourier'' \<or> lower space = ''real'')
      \<and> (normalization = Some ''phase'' \<or> normalization = None))"

text \<open>The numeric steps of a valid call: up to the test of \<open>normalization\<close>, and up to the
  test of \<open>disambiguate\<close>.\<close>

definition product_ops :: "string \<Rightarrow> numeric_op list" where
  "product_ops space = (if lower space = ''fourier'' then [] else [FFTN, FFTN]) @ [Multiply]"

definition all_ops :: "string \<Rightarrow> string option \<Rightarrow> int \<Rightarrow> numeric_op list" where
  "all_ops space normalization upsample_factor =
     product_ops space @ (if normalization = Some ''phase'' then [Divide] else [])
       @ [IFFTN, ArgMax] @ (if upsample_factor = 1 then [] else [UpsampledDFT, ArgMax])
       @ [Multiply, Sum, Multiply, Sum]"

section \<open>The upsampled DFT entry by entry\<close>

text \<open>The kernel of one axis as the loop uses it: cast to the element type of the data.\<close>

definition axis_kernel :: "dtype \<Rightarrow> real \<Rightarrow> nat \<times> nat \<times> real \<Rightarrow> ndarray" where
  "axis_kernel dt upsample_factor p =
     (case p of (n_items, ups_size, ax_offset) \<Rightarrow>
        astype (dft_kernel n_items ups_size ax_offset upsample_factor) dt)"

text \<open>The product, over the axes, of the kernel entries at output index \<open>ks\<close> and input
  index \<open>js\<close>.\<close>

fun kernel_prod :: "ndarray list \<Rightarrow> nat list \<Rightarrow> nat list \<Rightarrow> complex" where
  "kernel_prod (K # Ks) (k # ks) (j # js) = item K [k, j] * kernel_prod Ks ks js"
| "kernel_prod _ _ _ = 1"

section \<open>The zero-padded transform the upsampled DFT stands for\<close>

text \<open>\<open>numpy.fft.fftshift\<close> and \<open>ifftshift\<close> over all axes: a roll by \<open>n // 2\<close>, and by
  \<open>-(n // 2)\<close>.\<close>

definition fftshift :: "ndarray \<Rightarrow> ndarray" where
  "fftshift a = tabulate (shape a) (dtype a)
     (\<lambda>ix. item a (map2 (\<lambda>i n. (i + n - n div 2) mod n) ix (shape a)))"

definition ifftshift :: "ndarray \<Rightarrow> ndarray" where
  "ifftshift a = tabulate (shape a) (dtype a)
     (\<lambda>ix. item a (map2 (\<lambda>i n. (i + n div 2) mod n) ix (shape a)))"


definition centre_offset :: "nat \<Rightarrow> nat \<Rightarrow> nat" where
  "centre_offset upsample_factor n = (upsample_factor * n) div 2 - n div 2"

definition zero_pad_centre :: "ndarray \<Rightarrow> nat \<Rightarrow> ndarray" where
  "zero_pad_centre a upsample_factor =
     tabulate (map (\<lambda>n. upsample_factor * n) (shape a)) (dtype a)
       (\<lambda>ix. if list_all2 (\<lambda>i n. centre_offset upsample_factor n \<le> i
                                \<and> i < centre_offset upsample_factor n + n) ix (shape a)
             then item a (map2 (\<lambda>i n. i - centre_offset upsample_factor n) ix (shape a))
             else 0)"


definition periodic_index :: "int list \<Rightarrow> nat list \<Rightarrow> nat list \<Rightarrow> nat list" where
  "periodic_index starts ix shp =
     map2 (\<lambda>sk n. nat ((fst sk + int (snd sk)) mod int n)) (zip starts ix) shp"

definition periodic_window :: "ndarray \<Rightarrow> int list \<Rightarrow> nat list \<Rightarrow> ndarray" where
  "periodic_window a starts sizes =
     tabulate sizes (dtype a) (\<lambda>ix. item a (periodic_index starts ix (shape a)))"






section \<open>Facts about indexing\<close>

lemma valid_index_Nil [simp]: "valid_index [] [] " by (simp add: valid_index_def)
lemma valid_index_Cons [simp]: "valid_index (i # ix) (n # ns) \<longleftrightarrow> i < n \<and> valid_index ix ns"
  by (simp add: valid_index_def)
lemma valid_index_length: "valid_index ix shp \<Longrightarrow> length ix = length shp"
  by (simp add: valid_index_def list_all2_lengthD)
lemma valid_index_nth: "valid_index ix shp \<Longrightarrow> d < length shp \<Longrightarrow> ix ! d < shp ! d"
  by (simp add: valid_index_def list_all2_nthD2)

lemma ravel_less: "valid_index ix shp \<Longrightarrow> ravel_multi_index ix shp < prod_list shp"
proof (induction ix shp rule: ravel_multi_index.induct)
  case (1 i "is" n ns)
  then have i: "i < n" and r: "ravel_multi_index is ns < prod_list ns" by simp_all
  have "i * prod_list ns + ravel_multi_index is ns < i * prod_list ns + prod_list ns"
    using r by simp
  also have "\<dots> = Suc i * prod_list ns" by simp
  also have "\<dots> \<le> n * prod_list ns" using i by (intro mult_le_mono1) simp
  finally show ?case by simp
qed (simp_all add: valid_index_def)

lemma unravel_ravel: "valid_index ix shp \<Longrightarrow> unravel_index (ravel_multi_index ix shp) shp = ix"
proof (induction ix shp rule: ravel_multi_index.induct)
  case (1 i "is" n ns)
  then have r: "ravel_multi_index is ns < prod_list ns" by (simp add: ravel_less)
  with 1 show ?case by simp
qed (simp_all add: valid_index_def)

lemma unravel_valid: "i < prod_list shp \<Longrightarrow> valid_index (unravel_index i shp) shp"
proof (induction shp arbitrary: i)
  case (Cons n ns)
  then have pos: "0 < prod_list ns" by (cases "prod_list ns = 0") simp_all
  have "i div prod_list ns < n" using Cons.prems pos
    by (simp add: less_mult_imp_div_less mult.commute)
  moreover have "i mod prod_list ns < prod_list ns" using pos by simp
  ultimately show ?case using Cons.IH by simp
qed simp

lemma ravel_unravel: "i < prod_list shp \<Longrightarrow> ravel_multi_index (unravel_index i shp) shp = i"
proof (induction shp arbitrary: i)
  case (Cons n ns)
  then have pos: "0 < prod_list ns" by (cases "prod_list ns = 0") simp_all
  then have "i mod prod_list ns < prod_list ns" by simp
  then show ?case using Cons.IH by simp
qed simp

lemma shape_tabulate [simp]: "shape (tabulate shp dt f) = shp" by (simp add: tabulate_def)
lemma dtype_tabulate [simp]: "dtype (tabulate shp dt f) = dt" by (simp add: tabulate_def)
lemma length_elems_tabulate [simp]: "length (elems (tabulate shp dt f)) = prod_list shp"
  by (simp add: tabulate_def)
lemma well_formed_tabulate [simp]: "well_formed (tabulate shp dt f)" by (simp add: well_formed_def)

lemma item_tabulate: "valid_index ix shp \<Longrightarrow> item (tabulate shp dt f) ix = f ix"
  by (simp add: item_def tabulate_def ravel_less unravel_ravel)

lemma ndarray_eqI:
  assumes "well_formed a" "well_formed b" "shape a = shape b" "dtype a = dtype b"
    and "\<And>ix. valid_index ix (shape a) \<Longrightarrow> item a ix = item b ix"
  shows "a = b"
proof -
  have len: "length (elems a) = length (elems b)" using assms by (simp add: well_formed_def)
  have "elems a ! i = elems b ! i" if "i < length (elems a)" for i
  proof -
    have i: "i < prod_list (shape a)" using that assms(1) by (simp add: well_formed_def)
    have "item a (unravel_index i (shape a)) = item b (unravel_index i (shape a))"
      using assms(5) unravel_valid[OF i] by simp
    then show ?thesis using i assms(3) by (simp add: item_def ravel_unravel)
  qed
  then have "elems a = elems b" using len by (simp add: list_eq_iff_nth_eq)
  then show ?thesis using assms(3,4) by simp
qed

lemma tabulate_item: "well_formed a \<Longrightarrow> tabulate (shape a) (dtype a) (item a) = a"
  by (rule ndarray_eqI) (simp_all add: item_tabulate)

section \<open>Shapes and element types of the results\<close>

lemma length_unravel_index [simp]: "length (unravel_index i shp) = length shp"
  by (induction shp arbitrary: i) simp_all

lemma argmax_from_less: "best < i \<Longrightarrow> argmax_from xs i best v < i + length xs"
proof (induction xs arbitrary: i best v)
  case Nil
  then show ?case by simp
next
  case (Cons x xs)
  have "argmax_from xs (Suc i) i x < Suc i + length xs" by (rule Cons.IH) simp
  moreover have "argmax_from xs (Suc i) best v < Suc i + length xs"
    using Cons.prems by (intro Cons.IH) simp
  ultimately show ?case by simp
qed

lemma argmax_Inr: "xs \<noteq> [] \<Longrightarrow> \<exists>i. argmax xs = Inr i \<and> i < length xs"
proof (cases xs)
  case (Cons x ys)
  have "argmax_from ys 1 0 x < 1 + length ys" by (rule argmax_from_less) simp
  with Cons show ?thesis by simp
qed simp

lemma shape_conj [simp]: "shape (conj a) = shape a" by (simp add: conj_def)
lemma dtype_conj [simp]: "dtype (conj a) = dtype a" by (simp add: conj_def)
lemma elems_conj [simp]: "elems (conj a) = map cnj (elems a)" by (simp add: conj_def)
lemma ndim_conj [simp]: "ndim (conj a) = ndim a" by (simp add: ndim_def)
lemma well_formed_conj [simp]: "well_formed (conj a) = well_formed a" by (simp add: well_formed_def)
lemma item_conj: "valid_index ix (shape a) \<Longrightarrow> well_formed a \<Longrightarrow> item (conj a) ix = cnj (item a ix)"
  by (simp add: item_def well_formed_def ravel_less)

lemma shape_multiply [simp]: "shape (multiply a b) = shape a" by (simp add: multiply_def)
lemma shape_astype [simp]: "shape (astype a dt) = shape a" by (simp add: astype_def)
lemma dtype_astype [simp]: "dtype (astype a dt) = dt" by (simp add: astype_def)
lemma shape_fftn [simp]: "shape (fftn a) = shape a" by (simp add: fftn_def)
lemma shape_ifftn [simp]: "shape (ifftn a) = shape a" by (simp add: ifftn_def)
lemma well_formed_fftn [simp]: "well_formed (fftn a)" by (simp add: fftn_def)
lemma well_formed_ifftn [simp]: "well_formed (ifftn a)" by (simp add: ifftn_def)
lemma length_absolute [simp]: "length (absolute a) = length (elems a)" by (simp add: absolute_def)
lemma length_elems_ifftn [simp]: "length (elems (ifftn a)) = prod_list (shape a)" by (simp add: ifftn_def)

lemma shape_dft_kernel [simp]: "shape (dft_kernel n r off u) = [r, n]" by (simp add: dft_kernel_def tabulate_def)
lemma shape_tensordot [simp]: "shape (tensordot a b) = hd (shape a) # butlast (shape b)"
  by (simp add: tensordot_def)
lemma dtype_tensordot [simp]: "dtype (tensordot a b) = result_type (dtype a) (dtype b)"
  by (simp add: tensordot_def)
lemma well_formed_tensordot [simp]: "well_formed (tensordot a b)" by (simp add: tensordot_def)
lemma result_type_idem [simp]: "result_type dt dt = dt"
  by (cases dt) (simp_all add: result_type_def)

lemma shape_upsampled_dft_loop:
  "length ps \<le> length (shape data) \<Longrightarrow>
   shape (upsampled_dft_loop ps u data)
     = rev (map (\<lambda>p. fst (snd p)) ps) @ take (length (shape data) - length ps) (shape data)"
proof (induction ps arbitrary: data)
  case Nil
  then show ?case by simp
next
  case (Cons p ps)
  obtain n r off where p: "p = (n, r, off)" by (cases p) auto
  let ?d = "tensordot (astype (dft_kernel n r off u) (dtype data)) data"
  from Cons.prems have ne: "shape data \<noteq> []" by auto
  then have len: "length (shape ?d) = length (shape data)" by simp
  have "shape (upsampled_dft_loop ps u ?d)
        = rev (map (\<lambda>p. fst (snd p)) ps) @ take (length (shape ?d) - length ps) (shape ?d)"
    using Cons.prems len by (intro Cons.IH) simp
  also have "take (length (shape ?d) - length ps) (shape ?d)
        = r # take (length (shape data) - length (p # ps)) (shape data)"
  proof -
    have "length (shape data) - length ps = Suc (length (shape data) - length (p # ps))"
      using Cons.prems by simp
    moreover have "take (length (shape data) - length (p # ps)) (butlast (shape data))
        = take (length (shape data) - length (p # ps)) (shape data)"
      using ne by (intro take_butlast) (simp add: Suc_diff_Suc diff_less)
    ultimately show ?thesis by (simp add: len)
  qed
  finally show ?case by (simp add: p)
qed

lemma dtype_upsampled_dft_loop [simp]: "dtype (upsampled_dft_loop ps u data) = dtype data"
  by (induction ps u data rule: upsampled_dft_loop.induct) simp_all

lemma well_formed_upsampled_dft_loop:
  "well_formed data \<Longrightarrow> well_formed (upsampled_dft_loop ps u data)"
  by (induction ps u data rule: upsampled_dft_loop.induct) simp_all

lemma upsampled_dft_Single:
  "length offs = ndim data \<Longrightarrow>
   upsampled_dft data (Single r) u (Some offs)
     = Inr (upsampled_dft_loop (rev (zip (shape data) (zip (replicate (ndim data) r) offs))) u data)"
  by (simp add: upsampled_dft_def)

lemma upsampled_dft_eq:
  "upsampled_dft data sizes u offs =
     (if length (region_sizes data sizes) \<noteq> ndim data \<or> length (offsets_of data offs) \<noteq> ndim data
      then Inl ValueError
      else Inr (upsampled_dft_loop
                  (rev (zip (shape data) (zip (region_sizes data sizes) (offsets_of data offs))))
                  u data))"
  by (cases sizes; cases offs) (simp_all add: upsampled_dft_def region_sizes_def offsets_of_def)

lemma shape_upsampled_dft:
  assumes "upsampled_dft data sizes u offs = Inr y"
  shows "shape y = region_sizes data sizes"
proof -
  let ?rs = "region_sizes data sizes" and ?os = "offsets_of data offs"
  have lr: "length ?rs = ndim data" and lo: "length ?os = ndim data"
    and y: "y = upsampled_dft_loop (rev (zip (shape data) (zip ?rs ?os))) u data"
    using assms by (auto simp: upsampled_dft_eq split: if_splits)
  have "shape y = rev (map (\<lambda>p. fst (snd p)) (rev (zip (shape data) (zip ?rs ?os))))
                   @ take (length (shape data) - length (rev (zip (shape data) (zip ?rs ?os)))) (shape data)"
    unfolding y by (rule shape_upsampled_dft_loop) simp
  also have "\<dots> = map (\<lambda>p. fst (snd p)) (zip (shape data) (zip ?rs ?os))"
    using lr lo by (simp add: rev_map ndim_def)
  also have "\<dots> = map fst (map snd (zip (shape data) (zip ?rs ?os)))"
    by simp
  also have "\<dots> = ?rs"
    using lr lo by (simp add: ndim_def del: map_map)
  finally show ?thesis .
qed

section \<open>The control flow of the registration\<close>

lemma well_formed_multiply:
  "well_formed a \<Longrightarrow> well_formed b \<Longrightarrow> shape a = shape b \<Longrightarrow> well_formed (multiply a b)"
  by (simp add: well_formed_def multiply_def)

lemma shape_phase_normalize [simp]: "shape (phase_normalize a dt) = shape a"
  by (simp add: phase_normalize_def)
lemma dtype_phase_normalize [simp]: "dtype (phase_normalize a dt) = dtype a"
  by (simp add: phase_normalize_def)
lemma well_formed_phase_normalize [simp]: "well_formed (phase_normalize a dt) = well_formed a"
  by (simp add: phase_normalize_def well_formed_def)

lemma shape_spectrum [simp]: "shape (spectrum space a) = shape a"
  by (simp add: spectrum_def)
lemma well_formed_spectrum: "well_formed a \<Longrightarrow> well_formed (spectrum space a)"
  by (simp add: spectrum_def)
lemma shape_cross_power [simp]: "shape (cross_power a b dt nm) = shape a"
  by (simp add: cross_power_def)
lemma well_formed_cross_power:
  "well_formed a \<Longrightarrow> well_formed b \<Longrightarrow> shape a = shape b \<Longrightarrow> well_formed (cross_power a b dt nm)"
  by (simp add: cross_power_def well_formed_multiply)

lemma fst_pcc_finish [simp]: "fst (pcc_finish ops shp shift CC sa ta dis) = ops"
  by (simp add: pcc_finish_def)

lemma snd_pcc_finish:
  "snd (pcc_finish ops shp shift CC sa ta dis) =
     (if dis then Inl NotImplementedError
      else Inr (map2 (\<lambda>n s. if n = 1 then 0 else s) shp shift,
                compute_error CC sa ta, compute_phasediff CC))"
  by (simp add: pcc_finish_def)

lemma length_integer_shift [simp]:
  "length (integer_shift maxima shp) = min (length maxima) (length shp)"
  by (simp add: integer_shift_def)

lemma region_positive: "1 \<le> u \<Longrightarrow> 0 < nat (upsampled_region_size u)"
proof -
  assume "1 \<le> u"
  then have "1 \<le> real_of_int u * 1.5" by simp
  then have "0 < \<lceil>real_of_int u * 1.5\<rceil>" by linarith
  then show ?thesis by (simp add: upsampled_region_size_def)
qed

lemma length_round_shift [simp]: "length (round_shift u shift) = length shift"
  by (simp add: round_shift_def)

lemma length_sample_region_offset [simp]: "length (sample_region_offset u shift) = length shift"
  by (simp add: sample_region_offset_def)

lemma length_refine_shift [simp]:
  "length (refine_shift u shift maxima) = min (length shift) (length maxima)"
  by (simp add: refine_shift_def)

lemma pcc_refine_eq:
  assumes u: "1 \<le> u" and len: "length shift0 = ndim ip" and wf: "well_formed ip"
  shows "\<exists>y am. upsampled_dft (conj ip) (Single (nat (upsampled_region_size u))) (of_int u)
               (Some (sample_region_offset u (round_shift u shift0))) = Inr y
           \<and> shape y = replicate (ndim ip) (nat (upsampled_region_size u))
           \<and> argmax (absolute (conj y)) = Inr am \<and> am < prod_list (shape y)
           \<and> pcc_refine ops1 src tgt ip u dis shift0
             = pcc_finish (ops1 @ [UpsampledDFT, ArgMax, Multiply, Sum, Multiply, Sum]) (shape src)
                 (refine_shift u (round_shift u shift0) (unravel_index am (shape y)))
                 (item (conj y) (unravel_index am (shape y)))
                 (intensity src) (intensity tgt) dis"
proof -
  let ?R = "nat (upsampled_region_size u)"
  let ?offs = "sample_region_offset u (round_shift u shift0)"
  have lo: "length ?offs = ndim (conj ip)" by (simp add: len)
  define y where "y = upsampled_dft_loop
      (rev (zip (shape (conj ip)) (zip (replicate (ndim (conj ip)) ?R) ?offs))) (of_int u) (conj ip)"
  have yeq: "upsampled_dft (conj ip) (Single ?R) (of_int u) (Some ?offs) = Inr y"
    unfolding y_def by (rule upsampled_dft_Single [OF lo])
  have sh: "shape y = replicate (ndim ip) ?R"
    using shape_upsampled_dft [OF yeq] by (simp add: region_sizes_def)
  have wfy: "well_formed y" unfolding y_def
    by (rule well_formed_upsampled_dft_loop) (simp add: wf)
  have "0 < prod_list (shape y)" using region_positive [OF u] by (simp add: sh)
  then have "length (absolute (conj y)) \<noteq> 0" using wfy by (simp add: well_formed_def)
  then have "absolute (conj y) \<noteq> []" by (simp only: length_0_conv) simp
  then obtain am where am: "argmax (absolute (conj y)) = Inr am"
    and aml: "am < length (absolute (conj y))" using argmax_Inr by blast
  have "am < prod_list (shape y)" using aml wfy by (simp add: well_formed_def)
  moreover have "pcc_refine ops1 src tgt ip u dis shift0
             = pcc_finish (ops1 @ [UpsampledDFT, ArgMax, Multiply, Sum, Multiply, Sum]) (shape src)
                 (refine_shift u (round_shift u shift0) (unravel_index am (shape y)))
                 (item (conj y) (unravel_index am (shape y)))
                 (intensity src) (intensity tgt) dis"
    using yeq am by (simp add: pcc_refine_def Let_def)
  ultimately show ?thesis using yeq sh am by blast
qed

lemma pcc_locate_eq:
  assumes ne: "0 < prod_list (shape ip)"
  shows "\<exists>am. argmax (absolute (ifftn ip)) = Inr am \<and> am < prod_list (shape ip)
           \<and> pcc_locate ops0 src tgt ip u dis =
              (if u = 1 then
                 pcc_finish (ops0 @ [IFFTN, ArgMax, Multiply, Sum, Multiply, Sum]) (shape src)
                   (integer_shift (unravel_index am (shape ip)) (shape src))
                   (item (ifftn ip) (unravel_index am (shape ip)))
                   (intensity src / real (asize src)) (intensity tgt / real (asize tgt)) dis
               else pcc_refine (ops0 @ [IFFTN, ArgMax]) src tgt ip u dis
                      (integer_shift (unravel_index am (shape ip)) (shape src)))"
proof -
  have "length (absolute (ifftn ip)) \<noteq> 0" using ne by simp
  then have "absolute (ifftn ip) \<noteq> []" by (simp only: length_0_conv) simp
  then obtain am where am: "argmax (absolute (ifftn ip)) = Inr am"
    and aml: "am < length (absolute (ifftn ip))" using argmax_Inr by blast
  show ?thesis using am aml by (simp add: pcc_locate_def Let_def)
qed

section \<open>What a valid call computes\<close>

lemma pcc_traced_valid:
  assumes "valid_call ref mov u space nm"
  shows "phase_cross_correlation_traced ref mov u space dis None None ov nm
         = pcc_locate (product_ops space @ (if nm = Some ''phase'' then [Divide] else []))
             (spectrum space ref) (spectrum space mov)
             (cross_power (spectrum space ref) (spectrum space mov) (float_dtype_of ref mov) nm)
             u dis"
proof -
  from assms have sh: "shape ref = shape mov"
    and sp: "lower space = ''fourier'' \<or> lower space = ''real''"
    and nm: "nm = Some ''phase'' \<or> nm = None"
    by (simp_all add: valid_call_def)
  from sp nm show ?thesis
    by (auto simp: phase_cross_correlation_traced_def sh pcc_product_def Let_def
          spectrum_def cross_power_def float_dtype_of_def product_ops_def)
qed

lemma valid_call_product:
  assumes "valid_call ref mov u space nm"
  defines "ip \<equiv> cross_power (spectrum space ref) (spectrum space mov) (float_dtype_of ref mov) nm"
  shows "shape ip = shape ref" and "well_formed ip" and "0 < prod_list (shape ip)"
    and "ndim ip = length (shape ref)"
proof -
  from assms(1) have sh: "shape ref = shape mov" and wr: "well_formed ref" and wm: "well_formed mov"
    and ne: "0 < prod_list (shape ref)"
    by (auto simp: valid_call_def)
  show "shape ip = shape ref" by (simp add: ip_def)
  show "well_formed ip" unfolding ip_def
    by (intro well_formed_cross_power well_formed_spectrum wr wm) (simp add: sh)
  show "0 < prod_list (shape ip)" using ne by (simp add: ip_def)
  show "ndim ip = length (shape ref)" by (simp add: ip_def ndim_def)
qed

lemma pcc_valid_unit:
  assumes v: "valid_call ref mov 1 space nm"
  defines "src \<equiv> spectrum space ref" and "tgt \<equiv> spectrum space mov"
  defines "ip \<equiv> cross_power (spectrum space ref) (spectrum space mov) (float_dtype_of ref mov) nm"
  shows "\<exists>am. argmax (absolute (ifftn ip)) = Inr am \<and> am < prod_list (shape ref)
           \<and> phase_cross_correlation_traced ref mov 1 space dis None None ov nm
             = pcc_finish (all_ops space nm 1) (shape ref)
                 (integer_shift (unravel_index am (shape ref)) (shape ref))
                 (item (ifftn ip) (unravel_index am (shape ref)))
                 (intensity src / real (asize src)) (intensity tgt / real (asize tgt)) dis"
proof -
  have sh: "shape ip = shape ref" and ne: "0 < prod_list (shape ip)"
    using valid_call_product [OF v] by (simp_all add: ip_def)
  let ?ops = "product_ops space @ (if nm = Some ''phase'' then [Divide] else [])"
  from pcc_locate_eq [OF ne, of ?ops src tgt 1 dis]
  obtain am where am: "argmax (absolute (ifftn ip)) = Inr am" "am < prod_list (shape ip)"
    and loc: "pcc_locate ?ops src tgt ip 1 dis
         = pcc_finish (?ops @ [IFFTN, ArgMax, Multiply, Sum, Multiply, Sum]) (shape src)
             (integer_shift (unravel_index am (shape ip)) (shape src))
             (item (ifftn ip) (unravel_index am (shape ip)))
             (intensity src / real (asize src)) (intensity tgt / real (asize tgt)) dis"
    by auto
  have ssrc: "shape src = shape ref" by (simp add: src_def)
  have ops: "?ops @ [IFFTN, ArgMax, Multiply, Sum, Multiply, Sum] = all_ops space nm 1"
    by (simp add: all_ops_def)
  have "phase_cross_correlation_traced ref mov 1 space dis None None ov nm
        = pcc_locate ?ops src tgt ip 1 dis"
    using pcc_traced_valid [OF v, of dis ov] by (simp add: src_def tgt_def ip_def)
  also note loc
  finally have "phase_cross_correlation_traced ref mov 1 space dis None None ov nm
             = pcc_finish (all_ops space nm 1) (shape ref)
                 (integer_shift (unravel_index am (shape ref)) (shape ref))
                 (item (ifftn ip) (unravel_index am (shape ref)))
                 (intensity src / real (asize src)) (intensity tgt / real (asize tgt)) dis"
    by (simp only: ops ssrc sh)
  with am show ?thesis by (auto simp: sh)
qed

lemma pcc_valid_refine:
  assumes v: "valid_call ref mov u space nm" and u1: "u \<noteq> 1"
  defines "src \<equiv> spectrum space ref" and "tgt \<equiv> spectrum space mov"
  defines "ip \<equiv> cross_power (spectrum space ref) (spectrum space mov) (float_dtype_of ref mov) nm"
  shows "\<exists>am y am2.
           argmax (absolute (ifftn ip)) = Inr am \<and> am < prod_list (shape ref)
           \<and> upsampled_dft (conj ip) (Single (nat (upsampled_region_size u))) (of_int u)
                 (Some (sample_region_offset u (round_shift u
                    (integer_shift (unravel_index am (shape ref)) (shape ref))))) = Inr y
           \<and> shape y = replicate (length (shape ref)) (nat (upsampled_region_size u))
           \<and> argmax (absolute (conj y)) = Inr am2 \<and> am2 < prod_list (shape y)
           \<and> phase_cross_correlation_traced ref mov u space dis None None ov nm
             = pcc_finish (all_ops space nm u) (shape ref)
                 (refine_shift u
                    (round_shift u (integer_shift (unravel_index am (shape ref)) (shape ref)))
                    (unravel_index am2 (shape y)))
                 (item (conj y) (unravel_index am2 (shape y)))
                 (intensity src) (intensity tgt) dis"
proof -
  have sh: "shape ip = shape ref" and ne: "0 < prod_list (shape ip)" and wf: "well_formed ip"
    and nd: "ndim ip = length (shape ref)"
    using valid_call_product [OF v] by (simp_all add: ip_def)
  have u: "1 \<le> u" using v by (simp add: valid_call_def)
  let ?ops = "product_ops space @ (if nm = Some ''phase'' then [Divide] else [])"
  from pcc_locate_eq [OF ne, of ?ops src tgt u dis] u1
  obtain am where am: "argmax (absolute (ifftn ip)) = Inr am" "am < prod_list (shape ip)"
    and loc: "pcc_locate ?ops src tgt ip u dis
         = pcc_refine (?ops @ [IFFTN, ArgMax]) src tgt ip u dis
             (integer_shift (unravel_index am (shape ip)) (shape src))"
    by auto
  let ?s0 = "integer_shift (unravel_index am (shape ref)) (shape ref)"
  have l0: "length ?s0 = ndim ip" by (simp add: nd)
  from pcc_refine_eq [OF u l0 wf, of "?ops @ [IFFTN, ArgMax]" src tgt dis]
  obtain y am2 where y: "upsampled_dft (conj ip) (Single (nat (upsampled_region_size u)))
                 (of_int u) (Some (sample_region_offset u (round_shift u ?s0))) = Inr y"
     and shy: "shape y = replicate (ndim ip) (nat (upsampled_region_size u))"
     and am2: "argmax (absolute (conj y)) = Inr am2" "am2 < prod_list (shape y)"
     and ref: "pcc_refine (?ops @ [IFFTN, ArgMax]) src tgt ip u dis ?s0
             = pcc_finish ((?ops @ [IFFTN, ArgMax]) @ [UpsampledDFT, ArgMax, Multiply, Sum, Multiply, Sum])
                 (shape src)
                 (refine_shift u (round_shift u ?s0) (unravel_index am2 (shape y)))
                 (item (conj y) (unravel_index am2 (shape y)))
                 (intensity src) (intensity tgt) dis"
    by blast
  have ssrc: "shape src = shape ref" by (simp add: src_def)
  have ops: "(?ops @ [IFFTN, ArgMax]) @ [UpsampledDFT, ArgMax, Multiply, Sum, Multiply, Sum]
             = all_ops space nm u" using u1 by (simp add: all_ops_def)
  have "phase_cross_correlation_traced ref mov u space dis None None ov nm
        = pcc_locate ?ops src tgt ip u dis"
    using pcc_traced_valid [OF v, of dis ov] by (simp add: src_def tgt_def ip_def)
  also have "\<dots> = pcc_refine (?ops @ [IFFTN, ArgMax]) src tgt ip u dis ?s0"
    using loc by (simp add: sh ssrc)
  also note ref
  finally have "phase_cross_correlation_traced ref mov u space dis None None ov nm
             = pcc_finish (all_ops space nm u) (shape ref)
                 (refine_shift u (round_shift u ?s0) (unravel_index am2 (shape y)))
                 (item (conj y) (unravel_index am2 (shape y)))
                 (intensity src) (intensity tgt) dis"
    by (simp only: ops ssrc)
  with am y shy am2 show ?thesis by (auto simp: sh nd)
qed

lemma pcc_valid_shift_length:
  assumes v: "valid_call ref mov u space nm"
  shows "\<exists>shift CC sa ta. phase_cross_correlation_traced ref mov u space dis None None ov nm
            = pcc_finish (all_ops space nm u) (shape ref) shift CC sa ta dis
          \<and> length shift = length (shape ref)"
proof (cases "u = 1")
  case True
  from pcc_valid_unit [OF v [unfolded True], of dis ov]
  obtain am where "phase_cross_correlation_traced ref mov 1 space dis None None ov nm
      = pcc_finish (all_ops space nm 1) (shape ref)
          (integer_shift (unravel_index am (shape ref)) (shape ref))
          (item (ifftn (cross_power (spectrum space ref) (spectrum space mov)
                  (float_dtype_of ref mov) nm)) (unravel_index am (shape ref)))
          (intensity (spectrum space ref) / real (asize (spectrum space ref)))
          (intensity (spectrum space mov) / real (asize (spectrum space mov))) dis"
    by blast
  moreover have "length (integer_shift (unravel_index am (shape ref)) (shape ref))
                 = length (shape ref)" by simp
  ultimately show ?thesis unfolding True by blast
next
  case False
  from pcc_valid_refine [OF v False, of dis ov]
  obtain am y am2 where
    "phase_cross_correlation_traced ref mov u space dis None None ov nm
      = pcc_finish (all_ops space nm u) (shape ref)
          (refine_shift u
             (round_shift u (integer_shift (unravel_index am (shape ref)) (shape ref)))
             (unravel_index am2 (shape y)))
          (item (conj y) (unravel_index am2 (shape y)))
          (intensity (spectrum space ref)) (intensity (spectrum space mov)) dis"
    and "shape y = replicate (length (shape ref)) (nat (upsampled_region_size u))"
    by blast
  moreover from this have "length (refine_shift u
             (round_shift u (integer_shift (unravel_index am (shape ref)) (shape ref)))
             (unravel_index am2 (shape y))) = length (shape ref)"
    by simp
  ultimately show ?thesis by blast
qed

section \<open>Arithmetic of the shift\<close>

lemma round_half_even_of_int [simp]: "round_half_even (of_int k) = of_int k"
  by (simp add: round_half_even_def)

lemma integer_shift_nth:
  assumes "d < length maxima" "d < length shp"
  shows "integer_shift maxima shp ! d =
           (if real_of_int \<lfloor>real (shp ! d) / 2\<rfloor> < real (maxima ! d)
            then real (maxima ! d) - real (shp ! d) else real (maxima ! d))"
  using assms by (simp add: integer_shift_def)

lemma integer_shift_is_int:
  assumes "d < length maxima" "d < length shp"
  shows "\<exists>k. integer_shift maxima shp ! d = real_of_int k"
proof -
  have "real (maxima ! d) - real (shp ! d) = real_of_int (int (maxima ! d) - int (shp ! d))"
    by simp
  moreover have "real (maxima ! d) = real_of_int (int (maxima ! d))" by simp
  ultimately show ?thesis unfolding integer_shift_nth [OF assms] by (metis (full_types))
qed

lemma round_shift_integer_shift:
  assumes "u \<noteq> 0"
  shows "round_shift u (integer_shift maxima shp) = integer_shift maxima shp"
proof (rule nth_equalityI)
  show "length (round_shift u (integer_shift maxima shp)) = length (integer_shift maxima shp)"
    by simp
next
  fix d assume "d < length (round_shift u (integer_shift maxima shp))"
  then have d: "d < length maxima" "d < length shp" by simp_all
  then obtain k where k: "integer_shift maxima shp ! d = real_of_int k"
    using integer_shift_is_int by blast
  have "round_half_even (real_of_int k * real_of_int u) = real_of_int (k * u)"
    by (simp only: of_int_mult [symmetric] round_half_even_of_int)
  then show "round_shift u (integer_shift maxima shp) ! d = integer_shift maxima shp ! d"
    using d assms by (simp add: round_shift_def k)
qed

lemma wrap_bounds:
  fixes m s :: nat
  assumes "m < s"
  defines "w \<equiv> (if real_of_int \<lfloor>real s / 2\<rfloor> < real m then real m - real s else real m)"
  shows "- (real s / 2) < w" and "w \<le> real s / 2"
proof -
  have fl: "real_of_int \<lfloor>real s / 2\<rfloor> \<le> real s / 2" by (rule of_int_floor_le)
  have fu: "real s / 2 < real_of_int \<lfloor>real s / 2\<rfloor> + 1" by linarith
  show "- (real s / 2) < w"
  proof (cases "real_of_int \<lfloor>real s / 2\<rfloor> < real m")
    case True
    then have "\<lfloor>real s / 2\<rfloor> < int m" by (metis of_int_less_iff of_int_of_nat_eq)
    then have "\<lfloor>real s / 2\<rfloor> + 1 \<le> int m" by simp
    then have "real_of_int \<lfloor>real s / 2\<rfloor> + 1 \<le> real m"
      by (metis of_int_1 of_int_add of_int_le_iff of_int_of_nat_eq)
    with fu have "real s / 2 < real m" by linarith
    then have "- (real s / 2) < real m - real s" by linarith
    with True show ?thesis by (simp only: w_def if_True)
  next
    case False
    have "- (real s / 2) < real m" using assms(1) by simp
    with False show ?thesis by (simp only: w_def if_False)
  qed
  show "w \<le> real s / 2"
  proof (cases "real_of_int \<lfloor>real s / 2\<rfloor> < real m")
    case True
    have "real m - real s \<le> real s / 2" using assms(1) by simp
    with True show ?thesis by (simp only: w_def if_True)
  next
    case False
    with fl have "real m \<le> real s / 2" by linarith
    with False show ?thesis by (simp only: w_def if_False)
  qed
qed

lemma wrap_singleton:
  fixes m :: nat
  assumes "m < 1"
  shows "(if real_of_int \<lfloor>real (1::nat) / 2\<rfloor> < real m then real m - real (1::nat) else real m) = 0"
  using assms by simp

lemma refine_term_bound:
  assumes u: "2 \<le> u" and m: "m < nat (upsampled_region_size u)"
  shows "\<bar>(real m - real_of_int (dftshift u)) / real_of_int u\<bar> \<le> 1"
proof -
  let ?R = "upsampled_region_size u"
  have R1: "real_of_int u * 1.5 \<le> real_of_int ?R" and R2: "real_of_int ?R < real_of_int u * 1.5 + 1"
    unfolding upsampled_region_size_def by linarith+
  have D1: "real_of_int (dftshift u) \<le> real_of_int ?R / 2"
    and D2: "real_of_int ?R / 2 < real_of_int (dftshift u) + 1"
    unfolding dftshift_def by linarith+
  have "int m < ?R" using m by simp
  then have "int m + 1 \<le> ?R" by simp
  then have m1: "real m + 1 \<le> real_of_int ?R"
    by (metis of_int_1 of_int_add of_int_le_iff of_int_of_nat_eq)
  have ur: "2 \<le> real_of_int u" using u by simp
  have "\<bar>real m - real_of_int (dftshift u)\<bar> \<le> real_of_int u"
    using R1 R2 D1 D2 m1 ur by (simp add: abs_le_iff) 
  then show ?thesis using ur by (simp add: field_simps)
qed

lemma where_nth:
  assumes "length shift = length shp" "d < length shp"
  shows "map2 (\<lambda>n s. if n = 1 then 0 else s) shp shift ! d
         = (if shp ! d = 1 then 0 else (shift ! d :: real))"
  using assms by simp

lemma unravel_index_nth_less:
  assumes "i < prod_list shp" "d < length shp"
  shows "unravel_index i shp ! d < shp ! d"
  using unravel_valid [OF assms(1)] assms(2) by (rule valid_index_nth)

lemma refine_shift_nth:
  assumes "d < length shift" "d < length maxima"
  shows "refine_shift u shift maxima ! d
         = shift ! d + (real (maxima ! d) - real_of_int (dftshift u)) / real_of_int u"
  using assms by (simp add: refine_shift_def)

lemma upt_0_1: "[0..<1] = [0]"
  by simp

lemma upt_0_2: "[0..<2] = [0, 1]"
  by (simp add: numeral_2_eq_2)

lemma upt_0_3: "[0..<3] = [0, 1, 2]"
  by (simp add: numeral_3_eq_3 numeral_2_eq_2)

lemma upt_0_4: "[0..<4] = [0, 1, 2, 3]"
  by (simp add: eval_nat_numeral)

lemma upt_0_6: "[0..<6] = [0, 1, 2, 3, 4, 5]"
  by (simp add: eval_nat_numeral)

lemmas upts = upt_0_1 upt_0_2 upt_0_3 upt_0_4 upt_0_6

lemma cis_3pi_half: "cis (pi * 3 / 2) = - \<i>"
proof -
  have "cis (pi * 3 / 2) = cis (pi + pi / 2)" by (simp add: field_simps)
  also have "\<dots> = cis pi * cis (pi / 2)" by (simp only: cis_mult)
  finally show ?thesis by simp
qed

lemma cis_3pi_half': "cis (3 * pi / 2) = - \<i>"
  using cis_3pi_half by (simp add: mult.commute)

section \<open>The upsampled DFT, entry by entry\<close>

lemma sum_upto_eq: "sum_upto n f = (\<Sum>j<n. f j)"
  by (simp add: sum_upto_def interv_sum_list_conv_sum_set_nat atLeast0LessThan)

lemma multisum_cong:
  assumes "\<And>js. valid_index js ns \<Longrightarrow> f js = g js"
  shows "multisum ns f = multisum ns g"
  using assms
proof (induction ns arbitrary: f g)
  case Nil
  then show ?case by simp
next
  case (Cons n ns)
  have "multisum ns (\<lambda>js. f (j # js)) = multisum ns (\<lambda>js. g (j # js))" if "j < n" for j
    using that by (intro Cons.IH Cons.prems) simp
  then show ?case by (simp add: sum_upto_eq)
qed

lemma multisum_snoc:
  "multisum (ns @ [n]) f = multisum ns (\<lambda>js. sum_upto n (\<lambda>j. f (js @ [j])))"
  by (induction ns arbitrary: f) simp_all

lemma multisum_mult_left: "multisum ns (\<lambda>js. c * f js) = c * multisum ns f"
  by (induction ns arbitrary: f) (simp_all add: sum_upto_eq sum_distrib_left)

lemma multisum_zero [simp]: "multisum ns (\<lambda>js. 0) = 0"
  by (induction ns) (simp_all add: sum_upto_eq)

lemma valid_index_append:
  "length ix = length sh \<Longrightarrow>
   valid_index (ix @ iy) (sh @ sh') \<longleftrightarrow> valid_index ix sh \<and> valid_index iy sh'"
  by (simp add: valid_index_def list_all2_append)

lemma valid_index_snocE:
  assumes "valid_index ks (rs @ [r])"
  obtains ks' k where "ks = ks' @ [k]" "valid_index ks' rs" "k < r"
proof -
  from assms have len: "length ks = Suc (length rs)" by (simp add: valid_index_length)
  then have "ks \<noteq> []" by auto
  then obtain ks' k where ks: "ks = ks' @ [k]" by (metis rev_exhaust)
  with len have "length ks' = length rs" by simp
  with assms ks have "valid_index ks' rs" "k < r" by (simp_all add: valid_index_append)
  with ks show ?thesis by (rule that)
qed

lemma item_tensordot:
  assumes "valid_index (k # ix) (hd (shape a) # butlast (shape b))"
  shows "item (tensordot a b) (k # ix)
         = sum_upto (last (shape b)) (\<lambda>j. item a [k, j] * item b (ix @ [j]))"
  using assms by (simp add: tensordot_def item_tabulate del: valid_index_Cons)

lemma kernel_prod_snoc:
  assumes "length Ks = length ks" "length ks = length js"
  shows "kernel_prod (Ks @ [K]) (ks @ [k]) (js @ [j]) = kernel_prod Ks ks js * item K [k, j]"
  using assms
proof (induction Ks ks js rule: kernel_prod.induct)
  case (1 K' Ks k' ks j' js)
  then show ?case by simp
qed simp_all

lemma shape_axis_kernel [simp]: "shape (axis_kernel dt u (n, r, off)) = [r, n]"
  by (simp add: axis_kernel_def)

lemma dtype_axis_kernel [simp]: "dtype (axis_kernel dt u p) = dt"
  by (cases p) (simp add: axis_kernel_def)

lemma upsampled_dft_loop_Cons:
  "upsampled_dft_loop (p # ps) u data
   = upsampled_dft_loop ps u (tensordot (axis_kernel (dtype data) u p) data)"
  by (cases p) (simp add: axis_kernel_def)

lemma upsampled_dft_loop_pointwise:
  assumes "shape data = front @ map fst props"
    and "valid_index ks (map (\<lambda>p. fst (snd p)) props)"
    and "valid_index ds front"
  shows "item (upsampled_dft_loop (rev props) u data) (ks @ ds)
         = multisum (map fst props)
             (\<lambda>js. kernel_prod (map (axis_kernel (dtype data) u) props) ks js
                    * item data (ds @ js))"
  using assms
proof (induction props arbitrary: data front ks ds rule: rev_induct)
  case Nil
  then show ?case by (simp add: valid_index_def)
next
  case (snoc p props)
  obtain n r off where p: "p = (n, r, off)" by (cases p) auto
  let ?K = "axis_kernel (dtype data) u p"
  let ?d1 = "tensordot ?K data"
  from snoc.prems(2) obtain ks' k where ks: "ks = ks' @ [k]"
    and vks': "valid_index ks' (map (\<lambda>p. fst (snd p)) props)" and k: "k < r"
    by (auto simp: p elim: valid_index_snocE)
  have sh1: "shape ?d1 = (r # front) @ map fst props"
    using snoc.prems(1) by (simp add: p butlast_append)
  have last: "last (shape data) = n" using snoc.prems(1) by (simp add: p)
  have vd1: "valid_index (k # ds) (r # front)" using k snoc.prems(3) by simp
  have lks': "length ks' = length props" using vks' by (simp add: valid_index_length)
  have "item (upsampled_dft_loop (rev (props @ [p])) u data) (ks @ ds)
        = item (upsampled_dft_loop (rev props) u ?d1) (ks' @ (k # ds))"
    by (simp add: ks upsampled_dft_loop_Cons)
  also have "\<dots> = multisum (map fst props)
             (\<lambda>js. kernel_prod (map (axis_kernel (dtype ?d1) u) props) ks' js
                    * item ?d1 ((k # ds) @ js))"
    by (rule snoc.IH [OF sh1 vks' vd1])
  also have "\<dots> = multisum (map fst props)
             (\<lambda>js. sum_upto n (\<lambda>j.
                kernel_prod (map (axis_kernel (dtype data) u) (props @ [p])) (ks' @ [k]) (js @ [j])
                  * item data (ds @ js @ [j])))"
  proof (rule multisum_cong)
    fix js assume vjs: "valid_index js (map fst props)"
    then have ljs: "length js = length props" by (simp add: valid_index_length)
    have "valid_index (k # ds @ js) (hd (shape ?K) # butlast (shape data))"
      using snoc.prems(1,3) k vjs
      by (simp add: p butlast_append valid_index_append valid_index_length)
    then have "item ?d1 (k # ds @ js)
          = sum_upto n (\<lambda>j. item ?K [k, j] * item data ((ds @ js) @ [j]))"
      using item_tensordot [of k "ds @ js" ?K data] by (simp add: last)
    then show "kernel_prod (map (axis_kernel (dtype ?d1) u) props) ks' js
                  * item ?d1 ((k # ds) @ js)
          = sum_upto n (\<lambda>j.
                kernel_prod (map (axis_kernel (dtype data) u) (props @ [p])) (ks' @ [k]) (js @ [j])
                  * item data (ds @ js @ [j]))"
      using lks' ljs
      by (simp add: kernel_prod_snoc sum_upto_eq sum_distrib_left mult.assoc)
  qed
  also have "\<dots> = multisum (map fst (props @ [p]))
             (\<lambda>js. kernel_prod (map (axis_kernel (dtype data) u) (props @ [p])) (ks' @ [k]) js
                    * item data (ds @ js))"
    by (simp add: multisum_snoc p)
  finally show ?case by (simp add: ks)
qed


lemma item_dft_kernel:
  assumes "k < r" "j < n"
  shows "item (dft_kernel n r off u) [k, j]
         = exp (- im2pi * complex_of_real ((real k - off) * (fftfreq n u ! j)))"
  using assms by (simp add: dft_kernel_def item_tabulate)

lemma item_astype:
  assumes "well_formed a" "valid_index ix (shape a)"
  shows "item (astype a dt) ix
         = (if is_complex dt then item a ix else complex_of_real (Re (item a ix)))"
proof -
  have "ravel_multi_index ix (shape a) < length (elems a)"
    using assms by (simp add: well_formed_def ravel_less)
  then show ?thesis by (simp add: item_def astype_def)
qed

lemma well_formed_dft_kernel [simp]: "well_formed (dft_kernel n r off u)"
  by (simp add: dft_kernel_def)

lemma item_axis_kernel:
  assumes "k < r" "j < n"
  shows "item (axis_kernel dt u (n, r, off)) [k, j]
         = (let z = exp (- im2pi * complex_of_real ((real k - off) * (fftfreq n u ! j)))
            in if is_complex dt then z else complex_of_real (Re z))"
  using assms by (simp add: axis_kernel_def item_astype item_dft_kernel Let_def)

lemma upsampled_dft_loop_foldl:
  "upsampled_dft_loop ps u data
   = foldl (\<lambda>d p. tensordot (axis_kernel (dtype d) u p) d) data ps"
  by (induction ps arbitrary: data)
    (simp_all add: upsampled_dft_loop_Cons del: upsampled_dft_loop.simps(2))

lemma upsampled_dft_pointwise:
  assumes lr: "length (region_sizes data sizes) = ndim data"
    and lo: "length (offsets_of data offs) = ndim data"
    and ks: "valid_index ks (region_sizes data sizes)"
  shows "item (upsampled_dft_loop
                 (rev (zip (shape data) (zip (region_sizes data sizes) (offsets_of data offs))))
                 u data) ks
         = multisum (shape data)
             (\<lambda>js. kernel_prod (map (axis_kernel (dtype data) u)
                        (zip (shape data) (zip (region_sizes data sizes) (offsets_of data offs))))
                      ks js * item data js)"
proof -
  let ?props = "zip (shape data) (zip (region_sizes data sizes) (offsets_of data offs))"
  have f: "map fst ?props = shape data" using lr lo by (simp add: ndim_def)
  have "map (\<lambda>p. fst (snd p)) ?props = map fst (map snd ?props)" by simp
  also have "\<dots> = region_sizes data sizes" using lr lo by (simp add: ndim_def del: map_map)
  finally have r: "map (\<lambda>p. fst (snd p)) ?props = region_sizes data sizes" .
  have "item (upsampled_dft_loop (rev ?props) u data) (ks @ [])
        = multisum (map fst ?props)
            (\<lambda>js. kernel_prod (map (axis_kernel (dtype data) u) ?props) ks js
                   * item data ([] @ js))"
    by (rule upsampled_dft_loop_pointwise [where front = "[]"]) (simp_all add: f r ks)
  then show ?thesis by (simp add: f)
qed

section \<open>Lemmas on the zero-padded DFT\<close>

















lemma shape_fftshift [simp]: "shape (fftshift a) = shape a" by (simp add: fftshift_def)
lemma shape_ifftshift [simp]: "shape (ifftshift a) = shape a" by (simp add: ifftshift_def)
lemma shape_zero_pad_centre [simp]:
  "shape (zero_pad_centre a u) = map (\<lambda>n. u * n) (shape a)" by (simp add: zero_pad_centre_def)
lemma shape_periodic_window [simp]: "shape (periodic_window a starts sizes) = sizes"
  by (simp add: periodic_window_def)
lemma dtype_fftshift [simp]: "dtype (fftshift a) = dtype a" by (simp add: fftshift_def)
lemma dtype_ifftshift [simp]: "dtype (ifftshift a) = dtype a" by (simp add: ifftshift_def)
lemma dtype_zero_pad_centre [simp]: "dtype (zero_pad_centre a u) = dtype a"
  by (simp add: zero_pad_centre_def)
lemma dtype_periodic_window [simp]: "dtype (periodic_window a starts sizes) = dtype a"
  by (simp add: periodic_window_def)
lemma dtype_fftn_eq [simp]: "dtype (fftn a) = complex_dtype (dtype a)" by (simp add: fftn_def)
lemma well_formed_periodic_window [simp]: "well_formed (periodic_window a starts sizes)"
  by (simp add: periodic_window_def)














section \<open>Independence of the overlap ratio\<close>

text \<open>
  C9. An unmasked call returns the same shift, error and phase difference for any two
  values of \<open>overlap_ratio\<close>: the function never reads it. The equality holds for every
  call, also one that raises.
\<close>

theorem overlap_ratio_ignored:
  "phase_cross_correlation reference_image moving_image upsample_factor space disambiguate
     None None overlap_ratio1 normalization =
   phase_cross_correlation reference_image moving_image upsample_factor space disambiguate
     None None overlap_ratio2 normalization"
  by (simp add: phase_cross_correlation_def phase_cross_correlation_traced_def)

section \<open>Masks are rejected first\<close>

text \<open>
  C10. When \<open>reference_mask\<close> or \<open>moving_mask\<close> is given, the call raises
  \<open>NotImplementedError\<close> whatever the other arguments are: mismatched shapes, an
  unknown \<open>space\<close> or an unknown \<open>normalization\<close> do not change the error.
\<close>

theorem mask_check_first:
  assumes "reference_mask \<noteq> None \<or> moving_mask \<noteq> None"
  shows "phase_cross_correlation reference_image moving_image upsample_factor space
           disambiguate reference_mask moving_mask overlap_ratio normalization
         = Inl NotImplementedError"
  using assms by (simp add: phase_cross_correlation_def phase_cross_correlation_traced_def)

theorem mask_check_first_witness:
  "Some \<lparr>shape = [2], dtype = Float32, elems = [1, 1]\<rparr> \<noteq> None
   \<and> phase_cross_correlation \<lparr>shape = [2], dtype = Float32, elems = [1, 0]\<rparr>
        \<lparr>shape = [3], dtype = Float32, elems = [1, 0, 0]\<rparr> 1 ''frank'' True None
        (Some \<lparr>shape = [2], dtype = Float32, elems = [1, 1]\<rparr>) (3 / 10) (Some ''nonexisting'')
      = Inl NotImplementedError"
  using mask_check_first [of None "Some \<lparr>shape = [2], dtype = Float32, elems = [1, 1]\<rparr>"
      "\<lparr>shape = [2], dtype = Float32, elems = [1, 0]\<rparr>"
      "\<lparr>shape = [3], dtype = Float32, elems = [1, 0, 0]\<rparr>" 1 "''frank''" True "3 / 10"
      "Some ''nonexisting''"]
  by simp

section \<open>The order of the checks\<close>

text \<open>
  C1 (as amended). The mask check, the shape check and the \<open>space\<close> check raise before any
  numeric step. An unknown \<open>normalization\<close> raises \<open>ValueError\<close> after the forward
  transforms (when \<open>space\<close> is \<open>real\<close>) and the elementwise product. With
  \<open>disambiguate=True\<close> a valid call raises \<open>NotImplementedError\<close> only after the whole
  computation of the shift. Every one of these calls ends in the error, with no result.
\<close>

theorem validation_order:
  "(reference_mask \<noteq> None \<or> moving_mask \<noteq> None \<longrightarrow>
      phase_cross_correlation_traced reference_image moving_image upsample_factor space
        disambiguate reference_mask moving_mask overlap_ratio normalization
      = ([], Inl NotImplementedError))
   \<and> (shape reference_image \<noteq> shape moving_image \<longrightarrow>
      phase_cross_correlation_traced reference_image moving_image upsample_factor space
        disambiguate None None overlap_ratio normalization
      = ([], Inl ValueError))
   \<and> (shape reference_image = shape moving_image \<longrightarrow>
        lower space \<noteq> ''fourier'' \<longrightarrow> lower space \<noteq> ''real'' \<longrightarrow>
      phase_cross_correlation_traced reference_image moving_image upsample_factor space
        disambiguate None None overlap_ratio normalization
      = ([], Inl ValueError))
   \<and> (shape reference_image = shape moving_image \<longrightarrow>
        lower space = ''fourier'' \<or> lower space = ''real'' \<longrightarrow>
        normalization \<noteq> Some ''phase'' \<longrightarrow> normalization \<noteq> None \<longrightarrow>
      phase_cross_correlation_traced reference_image moving_image upsample_factor space
        disambiguate None None overlap_ratio normalization
      = (product_ops space, Inl ValueError))
   \<and> (valid_call reference_image moving_image upsample_factor space normalization \<longrightarrow>
      phase_cross_correlation_traced reference_image moving_image upsample_factor space
        True None None overlap_ratio normalization
      = (all_ops space normalization upsample_factor, Inl NotImplementedError))"
proof (intro conjI impI)
  assume "valid_call reference_image moving_image upsample_factor space normalization"
  from pcc_valid_shift_length [OF this, of True overlap_ratio]
  show "phase_cross_correlation_traced reference_image moving_image upsample_factor space
        True None None overlap_ratio normalization
      = (all_ops space normalization upsample_factor, Inl NotImplementedError)"
    by (auto simp: pcc_finish_def)
qed (auto simp: phase_cross_correlation_traced_def pcc_product_def product_ops_def Let_def)

theorem validation_order_witness:
  "Some \<lparr>shape = [1], dtype = Float32, elems = [1]\<rparr> \<noteq> None
   \<and> phase_cross_correlation_traced \<lparr>shape = [1], dtype = Float32, elems = [1]\<rparr>
        \<lparr>shape = [1], dtype = Float32, elems = [1]\<rparr> 1 ''real'' False
        (Some \<lparr>shape = [1], dtype = Float32, elems = [1]\<rparr>) None (3 / 10) (Some ''phase'')
      = ([], Inl NotImplementedError)
   \<and> shape \<lparr>shape = [1], dtype = Float32, elems = [1]\<rparr>
        \<noteq> shape \<lparr>shape = [2], dtype = Float32, elems = [1, 0]\<rparr>
   \<and> phase_cross_correlation_traced \<lparr>shape = [1], dtype = Float32, elems = [1]\<rparr>
        \<lparr>shape = [2], dtype = Float32, elems = [1, 0]\<rparr> 1 ''real'' False None None (3 / 10)
        (Some ''phase'')
      = ([], Inl ValueError)
   \<and> lower ''frank'' \<noteq> ''fourier'' \<and> lower ''frank'' \<noteq> ''real''
   \<and> phase_cross_correlation_traced \<lparr>shape = [1], dtype = Float32, elems = [1]\<rparr>
        \<lparr>shape = [1], dtype = Float32, elems = [1]\<rparr> 1 ''frank'' False None None (3 / 10)
        (Some ''phase'')
      = ([], Inl ValueError)
   \<and> lower ''Real'' = ''real'' \<and> Some ''nonexisting'' \<noteq> Some ''phase''
   \<and> phase_cross_correlation_traced \<lparr>shape = [1], dtype = Float32, elems = [1]\<rparr>
        \<lparr>shape = [1], dtype = Float32, elems = [1]\<rparr> 1 ''Real'' False None None (3 / 10)
        (Some ''nonexisting'')
      = (product_ops ''Real'', Inl ValueError)
   \<and> valid_call \<lparr>shape = [1], dtype = Float32, elems = [1]\<rparr>
        \<lparr>shape = [1], dtype = Float32, elems = [1]\<rparr> 2 ''fourier'' (Some ''phase'')
   \<and> phase_cross_correlation_traced \<lparr>shape = [1], dtype = Float32, elems = [1]\<rparr>
        \<lparr>shape = [1], dtype = Float32, elems = [1]\<rparr> 2 ''fourier'' True None None (3 / 10)
        (Some ''phase'')
      = (all_ops ''fourier'' (Some ''phase'') 2, Inl NotImplementedError)"
proof -
  let ?a = "\<lparr>shape = [1], dtype = Float32, elems = [1]\<rparr>"
  let ?b = "\<lparr>shape = [2], dtype = Float32, elems = [1, 0]\<rparr>"
  have l1: "lower ''frank'' \<noteq> ''fourier''" and l2: "lower ''frank'' \<noteq> ''real''"
    and l3: "lower ''Real'' = ''real''"
    by (simp_all add: lower_def lower_char_def)
  have v: "valid_call ?a ?a 2 ''fourier'' (Some ''phase'')"
    by (simp add: valid_call_def well_formed_def lower_def lower_char_def)
  note t1 = validation_order [of "Some ?a" None ?a ?a 1 "''real''" False "3 / 10" "Some ''phase''"]
  note t2 = validation_order [of None None ?a ?b 1 "''real''" False "3 / 10" "Some ''phase''"]
  note t3 = validation_order [of None None ?a ?a 1 "''frank''" False "3 / 10" "Some ''phase''"]
  note t4 = validation_order [of None None ?a ?a 1 "''Real''" False "3 / 10" "Some ''nonexisting''"]
  note t5 = validation_order [of None None ?a ?a 2 "''fourier''" False "3 / 10" "Some ''phase''"]
  show ?thesis
    using t1 t2 t3 t4 t5 l1 l2 l3 v by simp
qed

text \<open>
  The claim as stated fails: with an unknown \<open>normalization\<close> the two forward transforms
  and the product are computed before \<open>ValueError\<close> is raised, and with
  \<open>disambiguate=True\<close> every numeric step of the registration is performed before
  \<open>NotImplementedError\<close> is raised.
\<close>

theorem validation_order_counterexample:
  "phase_cross_correlation_traced \<lparr>shape = [1], dtype = Float32, elems = [1]\<rparr>
     \<lparr>shape = [1], dtype = Float32, elems = [1]\<rparr> 1 ''real'' False None None (3 / 10)
     (Some ''nonexisting'')
   = ([FFTN, FFTN, Multiply], Inl ValueError)
   \<and> phase_cross_correlation_traced \<lparr>shape = [1], dtype = Float32, elems = [1]\<rparr>
     \<lparr>shape = [1], dtype = Float32, elems = [1]\<rparr> 1 ''real'' True None None (3 / 10) None
   = ([FFTN, FFTN, Multiply, IFFTN, ArgMax, Multiply, Sum, Multiply, Sum],
      Inl NotImplementedError)"
proof -
  let ?a = "\<lparr>shape = [1], dtype = Float32, elems = [1]\<rparr>"
  have l: "lower ''real'' = ''real''" "lower ''real'' \<noteq> ''fourier''"
    by (simp_all add: lower_def lower_char_def)
  have v: "valid_call ?a ?a 1 ''real'' None"
    by (simp add: valid_call_def well_formed_def l)
  have "phase_cross_correlation_traced ?a ?a 1 ''real'' False None None (3 / 10)
          (Some ''nonexisting'') = ([FFTN, FFTN, Multiply], Inl ValueError)"
    by (simp add: phase_cross_correlation_traced_def pcc_product_def l Let_def)
  moreover from pcc_valid_shift_length [OF v, of True "3 / 10"]
  have "phase_cross_correlation_traced ?a ?a 1 ''real'' True None None (3 / 10) None
        = ([FFTN, FFTN, Multiply, IFFTN, ArgMax, Multiply, Sum, Multiply, Sum],
           Inl NotImplementedError)"
    by (auto simp: pcc_finish_def all_ops_def product_ops_def l)
  ultimately show ?thesis by simp
qed

section \<open>The kinds of error\<close>

text \<open>
  C6. Without masks, a \<open>space\<close> that is neither \<open>real\<close> nor \<open>fourier\<close> once lowered, and a
  \<open>normalization\<close> that is neither \<open>phase\<close> nor \<open>None\<close>, raise \<open>ValueError\<close>. A mask raises
  \<open>NotImplementedError\<close>, and so does \<open>disambiguate=True\<close> in an otherwise valid call; the
  two errors are distinct. The upsampled DFT raises \<open>ValueError\<close> when the sequence of
  region sizes, or the sequence of axis offsets, does not have one entry per axis of
  the data.
\<close>

theorem error_kinds:
  "(lower space \<noteq> ''real'' \<longrightarrow> lower space \<noteq> ''fourier'' \<longrightarrow>
      phase_cross_correlation reference_image moving_image upsample_factor space
        disambiguate None None overlap_ratio normalization = Inl ValueError)
   \<and> (normalization \<noteq> Some ''phase'' \<longrightarrow> normalization \<noteq> None \<longrightarrow>
      phase_cross_correlation reference_image moving_image upsample_factor space
        disambiguate None None overlap_ratio normalization = Inl ValueError)
   \<and> (reference_mask \<noteq> None \<or> moving_mask \<noteq> None \<longrightarrow>
      phase_cross_correlation reference_image moving_image upsample_factor space
        disambiguate reference_mask moving_mask overlap_ratio normalization
      = Inl NotImplementedError)
   \<and> (valid_call reference_image moving_image upsample_factor space normalization \<longrightarrow>
      phase_cross_correlation reference_image moving_image upsample_factor space
        True None None overlap_ratio normalization = Inl NotImplementedError)
   \<and> NotImplementedError \<noteq> ValueError
   \<and> (length region_size \<noteq> ndim data \<longrightarrow>
      upsampled_dft data (Sizes region_size) factor offsets = Inl ValueError)
   \<and> (length axis_offsets \<noteq> ndim data \<longrightarrow>
      upsampled_dft data sizes factor (Some axis_offsets) = Inl ValueError)"
proof (intro conjI impI)
  assume "valid_call reference_image moving_image upsample_factor space normalization"
  from pcc_valid_shift_length [OF this, of True overlap_ratio]
  show "phase_cross_correlation reference_image moving_image upsample_factor space
        True None None overlap_ratio normalization = Inl NotImplementedError"
    by (auto simp: phase_cross_correlation_def pcc_finish_def)
next
  assume "length axis_offsets \<noteq> ndim data"
  then show "upsampled_dft data sizes factor (Some axis_offsets) = Inl ValueError"
    by (simp add: upsampled_dft_eq offsets_of_def)
next
  assume "length region_size \<noteq> ndim data"
  then show "upsampled_dft data (Sizes region_size) factor offsets = Inl ValueError"
    by (simp add: upsampled_dft_eq region_sizes_def)
qed (auto simp: phase_cross_correlation_def phase_cross_correlation_traced_def
       pcc_product_def Let_def)

theorem error_kinds_witness:
  "lower ''frank'' \<noteq> ''real'' \<and> lower ''frank'' \<noteq> ''fourier''
   \<and> phase_cross_correlation \<lparr>shape = [5], dtype = Float32, elems = [1, 1, 1, 1, 1]\<rparr>
        \<lparr>shape = [5], dtype = Float32, elems = [1, 1, 1, 1, 1]\<rparr> 1 ''frank'' False None None
        (3 / 10) (Some ''phase'') = Inl ValueError
   \<and> Some ''nonexisting'' \<noteq> Some ''phase'' \<and> Some ''nonexisting'' \<noteq> None
   \<and> phase_cross_correlation \<lparr>shape = [5], dtype = Float32, elems = [1, 1, 1, 1, 1]\<rparr>
        \<lparr>shape = [5], dtype = Float32, elems = [1, 1, 1, 1, 1]\<rparr> 1 ''fourier'' False None None
        (3 / 10) (Some ''nonexisting'') = Inl ValueError
   \<and> Some \<lparr>shape = [5], dtype = Float32, elems = [1, 1, 1, 1, 1]\<rparr> \<noteq> None
   \<and> phase_cross_correlation \<lparr>shape = [5], dtype = Float32, elems = [1, 1, 1, 1, 1]\<rparr>
        \<lparr>shape = [5], dtype = Float32, elems = [1, 1, 1, 1, 1]\<rparr> 1 ''real'' False None
        (Some \<lparr>shape = [5], dtype = Float32, elems = [1, 1, 1, 1, 1]\<rparr>)
        (3 / 10) (Some ''phase'') = Inl NotImplementedError
   \<and> valid_call \<lparr>shape = [5], dtype = Float32, elems = [1, 1, 1, 1, 1]\<rparr>
        \<lparr>shape = [5], dtype = Float32, elems = [1, 1, 1, 1, 1]\<rparr> 1 ''FOURIER'' (Some ''phase'')
   \<and> phase_cross_correlation \<lparr>shape = [5], dtype = Float32, elems = [1, 1, 1, 1, 1]\<rparr>
        \<lparr>shape = [5], dtype = Float32, elems = [1, 1, 1, 1, 1]\<rparr> 1 ''FOURIER'' True None None
        (3 / 10) (Some ''phase'') = Inl NotImplementedError
   \<and> length [3, 2, 1, 4 :: nat] \<noteq> ndim \<lparr>shape = [2, 2], dtype = Float32, elems = [1, 1, 1, 1]\<rparr>
   \<and> upsampled_dft \<lparr>shape = [2, 2], dtype = Float32, elems = [1, 1, 1, 1]\<rparr>
        (Sizes [3, 2, 1, 4]) 1 None = Inl ValueError
   \<and> length [3, 2, 1, 4 :: real] \<noteq> ndim \<lparr>shape = [2, 2], dtype = Float32, elems = [1, 1, 1, 1]\<rparr>
   \<and> upsampled_dft \<lparr>shape = [2, 2], dtype = Float32, elems = [1, 1, 1, 1]\<rparr>
        (Single 3) 1 (Some [3, 2, 1, 4]) = Inl ValueError"
proof -
  let ?a = "\<lparr>shape = [5], dtype = Float32, elems = [1, 1, 1, 1, 1]\<rparr>"
  let ?d = "\<lparr>shape = [2, 2], dtype = Float32, elems = [1, 1, 1, 1]\<rparr>"
  have l1: "lower ''frank'' \<noteq> ''fourier''" and l2: "lower ''frank'' \<noteq> ''real''"
    by (simp_all add: lower_def lower_char_def)
  have v: "valid_call ?a ?a 1 ''FOURIER'' (Some ''phase'')"
    by (simp add: valid_call_def well_formed_def lower_def lower_char_def)
  have n1: "length [3, 2, 1, 4 :: nat] \<noteq> ndim ?d" and n2: "length [3, 2, 1, 4 :: real] \<noteq> ndim ?d"
    by (simp_all add: ndim_def)
  note t1 = error_kinds [of "''frank''" ?a ?a 1 False "3 / 10" "Some ''phase''" None None
      "[3, 2, 1, 4]" ?d 1 None "[3, 2, 1, 4]" "Single 3"]
  note t2 = error_kinds [of "''fourier''" ?a ?a 1 False "3 / 10" "Some ''nonexisting''" None None
      "[3, 2, 1, 4]" ?d 1 None "[3, 2, 1, 4]" "Single 3"]
  note t3 = error_kinds [of "''real''" ?a ?a 1 False "3 / 10" "Some ''phase''" None "Some ?a"
      "[3, 2, 1, 4]" ?d 1 None "[3, 2, 1, 4]" "Single 3"]
  note t4 = error_kinds [of "''FOURIER''" ?a ?a 1 False "3 / 10" "Some ''phase''" None None
      "[3, 2, 1, 4]" ?d 1 None "[3, 2, 1, 4]" "Single 3"]
  show ?thesis
    using t1 t2 t3 t4 l1 l2 v n1 n2 by simp
qed

section \<open>Axes of length one\<close>

text \<open>
  C7. A valid call without disambiguation returns a shift with one component per axis,
  and the component of every axis of length one is exactly 0, with and without
  upsampling and whatever the data.
\<close>

theorem singleton_axis_shift_zero:
  assumes "valid_call reference_image moving_image upsample_factor space normalization"
  shows "\<exists>shift err phasediff.
           phase_cross_correlation reference_image moving_image upsample_factor space False
             None None overlap_ratio normalization = Inr (shift, err, phasediff)
           \<and> length shift = length (shape reference_image)
           \<and> (\<forall>d < length (shape reference_image).
                 shape reference_image ! d = 1 \<longrightarrow> shift ! d = 0)"
proof -
  from pcc_valid_shift_length [OF assms, of False overlap_ratio]
  obtain shift CC sa ta where
    eq: "phase_cross_correlation_traced reference_image moving_image upsample_factor space False
           None None overlap_ratio normalization
         = pcc_finish (all_ops space normalization upsample_factor) (shape reference_image)
             shift CC sa ta False"
    and len: "length shift = length (shape reference_image)" by blast
  let ?s = "map2 (\<lambda>n s. if n = 1 then 0 else s) (shape reference_image) shift"
  have "phase_cross_correlation reference_image moving_image upsample_factor space False
          None None overlap_ratio normalization
        = Inr (?s, compute_error CC sa ta, compute_phasediff CC)"
    by (simp add: phase_cross_correlation_def eq snd_pcc_finish)
  moreover have "length ?s = length (shape reference_image)" using len by simp
  moreover have "\<forall>d < length (shape reference_image).
                   shape reference_image ! d = 1 \<longrightarrow> ?s ! d = 0"
    using len by simp
  ultimately show ?thesis by blast
qed

theorem singleton_axis_shift_zero_witness:
  "valid_call \<lparr>shape = [2, 1], dtype = Complex64, elems = [1, \<i>]\<rparr>
     \<lparr>shape = [2, 1], dtype = Complex64, elems = [\<i>, 3]\<rparr> 20 ''fourier'' (Some ''phase'')
   \<and> (\<exists>shift err phasediff.
         phase_cross_correlation \<lparr>shape = [2, 1], dtype = Complex64, elems = [1, \<i>]\<rparr>
           \<lparr>shape = [2, 1], dtype = Complex64, elems = [\<i>, 3]\<rparr> 20 ''fourier'' False None None
           (3 / 10) (Some ''phase'') = Inr (shift, err, phasediff)
         \<and> length shift = 2 \<and> shift ! 1 = 0)"
proof -
  let ?a = "\<lparr>shape = [2, 1], dtype = Complex64, elems = [1, \<i>]\<rparr>"
  let ?b = "\<lparr>shape = [2, 1], dtype = Complex64, elems = [\<i>, 3]\<rparr>"
  have v: "valid_call ?a ?b 20 ''fourier'' (Some ''phase'')"
    by (simp add: valid_call_def well_formed_def lower_def lower_char_def)
  from singleton_axis_shift_zero [OF v, of "3 / 10"] v show ?thesis
    by (auto simp: numeral_2_eq_2)
qed

section \<open>The range of the shift\<close>

text \<open>
  C3 (as amended). A valid call without disambiguation returns one component per axis.
  When \<open>upsample_factor\<close> is 1, component \<open>d\<close> is \<open>maxima[d] - shape[d]\<close> if \<open>maxima[d]\<close> is
  above \<open>floor(shape[d] / 2)\<close> and \<open>maxima[d]\<close> otherwise, where \<open>maxima\<close> is the index of
  the largest magnitude of the cross-correlation, and it lies in the interval from
  \<open>-shape[d] / 2\<close> (excluded) to \<open>shape[d] / 2\<close> (included). With a larger factor the
  refinement moves the component by at most one pixel, so it lies between
  \<open>-shape[d] / 2 - 1\<close> (excluded) and \<open>shape[d] / 2 + 1\<close>.
\<close>

theorem shift_interval:
  assumes v: "valid_call reference_image moving_image upsample_factor space normalization"
  shows "\<exists>am shift err phasediff.
           argmax (absolute (ifftn (cross_power (spectrum space reference_image)
                      (spectrum space moving_image)
                      (float_dtype_of reference_image moving_image) normalization))) = Inr am
         \<and> phase_cross_correlation reference_image moving_image upsample_factor space False
             None None overlap_ratio normalization = Inr (shift, err, phasediff)
         \<and> length shift = length (shape reference_image)
         \<and> (\<forall>d < length (shape reference_image).
               (upsample_factor = 1 \<longrightarrow>
                  shift ! d =
                    (if real_of_int \<lfloor>real (shape reference_image ! d) / 2\<rfloor>
                          < real (unravel_index am (shape reference_image) ! d)
                     then real (unravel_index am (shape reference_image) ! d)
                            - real (shape reference_image ! d)
                     else real (unravel_index am (shape reference_image) ! d))
                  \<and> - (real (shape reference_image ! d) / 2) < shift ! d
                  \<and> shift ! d \<le> real (shape reference_image ! d) / 2)
               \<and> - (real (shape reference_image ! d) / 2) - 1 < shift ! d
               \<and> shift ! d \<le> real (shape reference_image ! d) / 2 + 1)"
proof -
  let ?sh = "shape reference_image"
  let ?ip = "cross_power (spectrum space reference_image) (spectrum space moving_image)
               (float_dtype_of reference_image moving_image) normalization"
  let ?pcc = "phase_cross_correlation reference_image moving_image upsample_factor space False
                None None overlap_ratio normalization"
  define wrap where "wrap m s = (if real_of_int \<lfloor>real s / 2\<rfloor> < real m
                                  then real m - real s else real m)" for m s :: nat
  have u: "1 \<le> upsample_factor" using v by (simp add: valid_call_def)
  show ?thesis
  proof (cases "upsample_factor = 1")
    case True
    from pcc_valid_unit [OF v [unfolded True], of False overlap_ratio]
    obtain am where am: "argmax (absolute (ifftn ?ip)) = Inr am" and aml: "am < prod_list ?sh"
      and eq: "phase_cross_correlation_traced reference_image moving_image 1 space False
                 None None overlap_ratio normalization
               = pcc_finish (all_ops space normalization 1) ?sh
                   (integer_shift (unravel_index am ?sh) ?sh)
                   (item (ifftn ?ip) (unravel_index am ?sh))
                   (intensity (spectrum space reference_image)
                      / real (asize (spectrum space reference_image)))
                   (intensity (spectrum space moving_image)
                      / real (asize (spectrum space moving_image))) False"
      by blast
    let ?ints = "integer_shift (unravel_index am ?sh) ?sh"
    let ?shift = "map2 (\<lambda>n s. if n = 1 then 0 else s) ?sh ?ints"
    obtain err pd where res: "?pcc = Inr (?shift, err, pd)"
      by (simp add: phase_cross_correlation_def True eq snd_pcc_finish)
    have len: "length ?shift = length ?sh" by simp
    have comp: "?shift ! d = wrap (unravel_index am ?sh ! d) (?sh ! d)
                \<and> - (real (?sh ! d) / 2) < ?shift ! d \<and> ?shift ! d \<le> real (?sh ! d) / 2"
      if d: "d < length ?sh" for d
    proof -
      have ml: "unravel_index am ?sh ! d < ?sh ! d" by (rule unravel_index_nth_less [OF aml d])
      have i: "?ints ! d = wrap (unravel_index am ?sh ! d) (?sh ! d)"
        using d by (simp add: integer_shift_nth wrap_def)
      have "?shift ! d = (if ?sh ! d = 1 then 0 else ?ints ! d)"
        using d by (intro where_nth) simp_all
      also have "\<dots> = wrap (unravel_index am ?sh ! d) (?sh ! d)"
        using ml by (auto simp: i wrap_def)
      finally have s: "?shift ! d = wrap (unravel_index am ?sh ! d) (?sh ! d)" .
      show ?thesis unfolding s using wrap_bounds [OF ml] by (simp add: wrap_def)
    qed
    have "\<forall>d < length ?sh.
            (upsample_factor = 1 \<longrightarrow>
               ?shift ! d = wrap (unravel_index am ?sh ! d) (?sh ! d)
               \<and> - (real (?sh ! d) / 2) < ?shift ! d \<and> ?shift ! d \<le> real (?sh ! d) / 2)
            \<and> - (real (?sh ! d) / 2) - 1 < ?shift ! d \<and> ?shift ! d \<le> real (?sh ! d) / 2 + 1"
    proof (intro allI impI)
      fix d assume d: "d < length ?sh"
      from comp [OF d] show "(upsample_factor = 1 \<longrightarrow>
               ?shift ! d = wrap (unravel_index am ?sh ! d) (?sh ! d)
               \<and> - (real (?sh ! d) / 2) < ?shift ! d \<and> ?shift ! d \<le> real (?sh ! d) / 2)
            \<and> - (real (?sh ! d) / 2) - 1 < ?shift ! d \<and> ?shift ! d \<le> real (?sh ! d) / 2 + 1"
        by linarith
    qed
    with am res len show ?thesis unfolding wrap_def by blast
  next
    case False
    with u have u2: "2 \<le> upsample_factor" by simp
    from pcc_valid_refine [OF v False, of False overlap_ratio]
    obtain am y am2 where am: "argmax (absolute (ifftn ?ip)) = Inr am" and aml: "am < prod_list ?sh"
      and shy: "shape y = replicate (length ?sh) (nat (upsampled_region_size upsample_factor))"
      and am2l: "am2 < prod_list (shape y)"
      and eq: "phase_cross_correlation_traced reference_image moving_image upsample_factor space
                 False None None overlap_ratio normalization
               = pcc_finish (all_ops space normalization upsample_factor) ?sh
                   (refine_shift upsample_factor
                      (round_shift upsample_factor (integer_shift (unravel_index am ?sh) ?sh))
                      (unravel_index am2 (shape y)))
                   (item (conj y) (unravel_index am2 (shape y)))
                   (intensity (spectrum space reference_image))
                   (intensity (spectrum space moving_image)) False"
      by blast
    let ?ints = "integer_shift (unravel_index am ?sh) ?sh"
    let ?m2 = "unravel_index am2 (shape y)"
    let ?ref = "refine_shift upsample_factor ?ints ?m2"
    let ?shift = "map2 (\<lambda>n s. if n = 1 then 0 else s) ?sh ?ref"
    have rs: "round_shift upsample_factor ?ints = ?ints"
      using u by (intro round_shift_integer_shift) simp
    obtain err pd where res: "?pcc = Inr (?shift, err, pd)"
      by (simp add: phase_cross_correlation_def eq snd_pcc_finish rs)
    have lref: "length ?ref = length ?sh" by (simp add: shy)
    have len: "length ?shift = length ?sh" by (simp add: shy)
    have comp: "- (real (?sh ! d) / 2) - 1 < ?shift ! d \<and> ?shift ! d \<le> real (?sh ! d) / 2 + 1"
      if d: "d < length ?sh" for d
    proof -
      have ml: "unravel_index am ?sh ! d < ?sh ! d" by (rule unravel_index_nth_less [OF aml d])
      have i: "?ints ! d = wrap (unravel_index am ?sh ! d) (?sh ! d)"
        using d by (simp add: integer_shift_nth wrap_def)
      have ib: "- (real (?sh ! d) / 2) < ?ints ! d" "?ints ! d \<le> real (?sh ! d) / 2"
        unfolding i using wrap_bounds [OF ml] by (simp_all add: wrap_def)
      have dy: "d < length (shape y)" using d by (simp add: shy)
      have "?m2 ! d < shape y ! d" by (rule unravel_index_nth_less [OF am2l dy])
      then have m2: "?m2 ! d < nat (upsampled_region_size upsample_factor)"
        using d by (simp add: shy)
      have tb: "\<bar>(real (?m2 ! d) - real_of_int (dftshift upsample_factor))
                  / real_of_int upsample_factor\<bar> \<le> 1"
        by (rule refine_term_bound [OF u2 m2])
      have r: "?ref ! d = ?ints ! d + (real (?m2 ! d) - real_of_int (dftshift upsample_factor))
                  / real_of_int upsample_factor"
        using d by (intro refine_shift_nth) (simp_all add: shy)
      have s: "?shift ! d = (if ?sh ! d = 1 then 0 else ?ref ! d)"
        using d lref by (intro where_nth) simp_all
      show ?thesis
      proof (cases "?sh ! d = 1")
        case True
        then have "?shift ! d = 0" by (simp only: s refl if_True)
        then show ?thesis using True by simp
      next
        case False
        then have "?shift ! d = ?ref ! d" by (simp only: s if_False)
        then have "?shift ! d = ?ints ! d + (real (?m2 ! d) - real_of_int (dftshift upsample_factor))
                  / real_of_int upsample_factor" by (simp only: r)
        with ib tb show ?thesis by linarith
      qed
    qed
    have "\<forall>d < length ?sh.
            (upsample_factor = 1 \<longrightarrow>
               ?shift ! d = wrap (unravel_index am ?sh ! d) (?sh ! d)
               \<and> - (real (?sh ! d) / 2) < ?shift ! d \<and> ?shift ! d \<le> real (?sh ! d) / 2)
            \<and> - (real (?sh ! d) / 2) - 1 < ?shift ! d \<and> ?shift ! d \<le> real (?sh ! d) / 2 + 1"
      using comp False by blast
    with am res len show ?thesis unfolding wrap_def by blast
  qed
qed

theorem shift_interval_witness:
  "valid_call \<lparr>shape = [2], dtype = Complex64, elems = [1, Complex (- 1) (- 2)]\<rparr>
     \<lparr>shape = [2], dtype = Complex64, elems = [1, 1]\<rparr> 1 ''fourier'' None
   \<and> (\<exists>shift err phasediff.
         phase_cross_correlation \<lparr>shape = [2], dtype = Complex64, elems = [1, Complex (- 1) (- 2)]\<rparr>
           \<lparr>shape = [2], dtype = Complex64, elems = [1, 1]\<rparr> 1 ''fourier'' False None None
           (3 / 10) None = Inr (shift, err, phasediff)
         \<and> length shift = 1 \<and> - 1 < shift ! 0 \<and> shift ! 0 \<le> 1)"
proof -
  let ?r = "\<lparr>shape = [2], dtype = Complex64, elems = [1, Complex (- 1) (- 2)]\<rparr>"
  let ?m = "\<lparr>shape = [2], dtype = Complex64, elems = [1, 1]\<rparr>"
  have v: "valid_call ?r ?m 1 ''fourier'' None"
    by (simp add: valid_call_def well_formed_def lower_def lower_char_def)
  from shift_interval [OF v, of "3 / 10"]
  obtain shift err phasediff where
    "phase_cross_correlation ?r ?m 1 ''fourier'' False None None (3 / 10) None
       = Inr (shift, err, phasediff)"
    and "length shift = length (shape ?r)"
    and "\<forall>d < length (shape ?r).
           ((1::int) = 1 \<longrightarrow> - (real (shape ?r ! d) / 2) < shift ! d
                            \<and> shift ! d \<le> real (shape ?r ! d) / 2)"
    by blast
  then have "phase_cross_correlation ?r ?m 1 ''fourier'' False None None (3 / 10) None
       = Inr (shift, err, phasediff) \<and> length shift = 1 \<and> - 1 < shift ! 0 \<and> shift ! 0 \<le> 1"
    by simp
  with v show ?thesis by blast
qed

text \<open>
  The claim as stated fails for a larger factor. Two spectra of shape \<open>(2,)\<close> whose
  cross-correlation peaks at index 1, and whose upsampled patch peaks at its last index,
  give the shift \<open>1.5\<close> with \<open>upsample_factor=2\<close>, above \<open>shape / 2 = 1\<close>.
\<close>

theorem shift_interval_counterexample:
  "phase_cross_correlation \<lparr>shape = [2], dtype = Complex64, elems = [1, Complex (- 1) (- 2)]\<rparr>
     \<lparr>shape = [2], dtype = Complex64, elems = [1, 1]\<rparr> 2 ''fourier'' False None None (3 / 10) None
   = Inr ([3 / 2], Finite (sqrt (1 / 6)), - arctan (1 / 3))
   \<and> \<not> (3 / 2 \<le> real 2 / 2)"
proof -
  let ?r = "\<lparr>shape = [2], dtype = Complex64, elems = [1, Complex (- 1) (- 2)]\<rparr>"
  let ?m = "\<lparr>shape = [2], dtype = Complex64, elems = [1, 1]\<rparr>"
  let ?cc = "\<lparr>shape = [2], dtype = Complex64, elems = [Complex 0 (- 1), Complex 1 1]\<rparr>"
  let ?k = "\<lparr>shape = [3, 2], dtype = Complex64, elems = [1, \<i>, 1, - 1, 1, - \<i>]\<rparr>"
  let ?y = "\<lparr>shape = [3], dtype = Complex64,
             elems = [Complex (- 1) (- 1), Complex 2 (- 2), Complex 3 1]\<rparr>"
  have ip: "multiply ?r (conj ?m) = ?r"
    by (simp add: multiply_def conj_def result_type_def)
  have cc: "ifftn ?r = ?cc"
    by (simp add: ifftn_def tabulate_def item_def sum_upto_def asize_def upts complex_eq_iff)
  have am: "argmax (absolute ?cc) = Inr 1"
    by (simp add: absolute_def cmod_def)
  have s0: "integer_shift [Suc 0] [2] = [1]"
    by (simp add: integer_shift_def)
  have R: "upsampled_region_size 2 = 3" by (simp add: upsampled_region_size_def)
  have D: "dftshift 2 = 1" by (simp add: dftshift_def R)
  have s1: "round_shift 2 [1] = [1]" by (simp add: round_shift_def round_half_even_def)
  have off: "sample_region_offset 2 [1] = [- 1]" by (simp add: sample_region_offset_def D)
  have kern: "astype (dft_kernel 2 3 (- 1) 2) Complex64 = ?k"
    by (simp add: astype_def dft_kernel_def tabulate_def fftfreq_def upts im2pi_def
          exp_eq_polar cis_3pi_half cis_3pi_half')
  have td: "tensordot ?k (conj ?r) = ?y"
    by (simp add: tensordot_def conj_def tabulate_def item_def sum_upto_def upts
          result_type_def complex_eq_iff)
  have "upsampled_dft (conj ?r) (Single 3) 2 (Some [- 1])
        = Inr (tensordot (astype (dft_kernel 2 3 (- 1) 2) Complex64) (conj ?r))"
    by (simp add: upsampled_dft_def ndim_def)
  then have ud: "upsampled_dft (conj ?r) (Single 3) 2 (Some [- 1]) = Inr ?y"
    by (simp only: kern td)
  have am2: "argmax (absolute (conj ?y)) = Inr 2"
    by (simp add: absolute_def cmod_def conj_def)
  have cm: "item (conj ?y) [2] = Complex 3 (- 1)"
    by (simp add: item_def conj_def numeral_2_eq_2 complex_eq_iff)
  have s2: "refine_shift 2 [1] [2] = [3 / 2]"
    by (simp add: refine_shift_def D)
  have i1: "intensity ?r = 6" and i2: "intensity ?m = 2"
    by (simp_all add: intensity_def multiply_def conj_def)
  have err: "compute_error (Complex 3 (- 1)) 6 2 = Finite (sqrt (1 / 6))"
    by (simp add: compute_error_def complex_eq_iff cmod_def)
  have pd: "compute_phasediff (Complex 3 (- 1)) = - arctan (1 / 3)"
    by (simp add: compute_phasediff_def arctan2_def arctan_minus)
  have ref: "pcc_refine [Multiply, IFFTN, ArgMax] ?r ?m ?r 2 False [1]
        = ([Multiply, IFFTN, ArgMax, UpsampledDFT, ArgMax, Multiply, Sum, Multiply, Sum],
           Inr ([3 / 2], Finite (sqrt (1 / 6)), - arctan (1 / 3)))"
    unfolding pcc_refine_def Let_def
    by (simp add: R s1 off ud am2 cm s2 i1 i2 pcc_finish_def err pd)
  have loc: "pcc_locate [Multiply] ?r ?m ?r 2 False
        = ([Multiply, IFFTN, ArgMax, UpsampledDFT, ArgMax, Multiply, Sum, Multiply, Sum],
           Inr ([3 / 2], Finite (sqrt (1 / 6)), - arctan (1 / 3)))"
    unfolding pcc_locate_def Let_def by (simp add: cc am s0 ref)
  have "phase_cross_correlation ?r ?m 2 ''fourier'' False None None (3 / 10) None
        = Inr ([3 / 2], Finite (sqrt (1 / 6)), - arctan (1 / 3))"
    by (simp add: phase_cross_correlation_def phase_cross_correlation_traced_def lower_def
          lower_char_def pcc_product_def Let_def ip loc)
  then show ?thesis by simp
qed

section \<open>The two branches on the upsampling factor\<close>

text \<open>
  C4. In a valid call with \<open>upsample_factor\<close> above 1, the patch of the upsampled
  cross-correlation is computed with region size \<open>ceil(upsample_factor * 1.5)\<close>, and with
  the offset \<open>dftshift - shift * upsample_factor\<close> on every axis, where \<open>dftshift\<close> is
  \<open>floor(region size / 2)\<close> and \<open>shift\<close> is the rounded integer estimate; the returned
  shift is that rounded estimate plus \<open>(index of the patch maximum - dftshift) /
  upsample_factor\<close> (then set to 0 on axes of length one), and the two amplitudes given to
  the error are the plain sums of \<open>Re(freq * conj(freq))\<close>. With \<open>upsample_factor\<close> equal
  to 1 the amplitudes are these sums divided by the number of elements.
\<close>

theorem refinement_branch:
  assumes v: "valid_call reference_image moving_image upsample_factor space normalization"
  defines "src_freq \<equiv> spectrum space reference_image"
    and "target_freq \<equiv> spectrum space moving_image"
  defines "image_product \<equiv> cross_power (spectrum space reference_image)
             (spectrum space moving_image) (float_dtype_of reference_image moving_image)
             normalization"
  defines "shp \<equiv> shape reference_image"
  defines "region \<equiv> \<lceil>real_of_int upsample_factor * 1.5\<rceil>"
  defines "centre \<equiv> \<lfloor>real_of_int \<lceil>real_of_int upsample_factor * 1.5\<rceil> / 2\<rfloor>"
  shows "\<exists>am. argmax (absolute (ifftn image_product)) = Inr am
    \<and> (upsample_factor = 1 \<longrightarrow>
         phase_cross_correlation reference_image moving_image upsample_factor space False
           None None overlap_ratio normalization
         = Inr (map2 (\<lambda>n s. if n = 1 then 0 else s) shp
                  (integer_shift (unravel_index am shp) shp),
                compute_error (item (ifftn image_product) (unravel_index am shp))
                  (sum_list (map Re (elems (multiply src_freq (conj src_freq))))
                     / real (asize src_freq))
                  (sum_list (map Re (elems (multiply target_freq (conj target_freq))))
                     / real (asize target_freq)),
                compute_phasediff (item (ifftn image_product) (unravel_index am shp))))
    \<and> (1 < upsample_factor \<longrightarrow>
         (\<exists>patch pm.
            upsampled_dft (conj image_product) (Single (nat region)) (real_of_int upsample_factor)
              (Some (map (\<lambda>s. real_of_int centre - s * real_of_int upsample_factor)
                       (map (\<lambda>s. round_half_even (s * real_of_int upsample_factor)
                                   / real_of_int upsample_factor)
                          (integer_shift (unravel_index am shp) shp)))) = Inr patch
            \<and> argmax (absolute (conj patch)) = Inr pm
            \<and> phase_cross_correlation reference_image moving_image upsample_factor space False
                 None None overlap_ratio normalization
               = Inr (map2 (\<lambda>n s. if n = 1 then 0 else s) shp
                        (map2 (\<lambda>s m. s + (real m - real_of_int centre)
                                         / real_of_int upsample_factor)
                           (map (\<lambda>s. round_half_even (s * real_of_int upsample_factor)
                                       / real_of_int upsample_factor)
                              (integer_shift (unravel_index am shp) shp))
                           (unravel_index pm (shape patch))),
                      compute_error (item (conj patch) (unravel_index pm (shape patch)))
                        (sum_list (map Re (elems (multiply src_freq (conj src_freq)))))
                        (sum_list (map Re (elems (multiply target_freq (conj target_freq))))),
                      compute_phasediff (item (conj patch) (unravel_index pm (shape patch))))))"
proof (cases "upsample_factor = 1")
  case True
  from pcc_valid_unit [OF v [unfolded True], of False overlap_ratio]
  show ?thesis
    unfolding True src_freq_def target_freq_def image_product_def shp_def
      phase_cross_correlation_def intensity_def
    by (auto simp: snd_pcc_finish)
next
  case False
  have R: "upsampled_region_size upsample_factor = region"
    by (simp add: upsampled_region_size_def region_def)
  have D: "dftshift upsample_factor = centre"
    by (simp add: dftshift_def upsampled_region_size_def centre_def)
  from pcc_valid_refine [OF v False, of False overlap_ratio]
  obtain am y am2 where am: "argmax (absolute (ifftn image_product)) = Inr am"
    and y: "upsampled_dft (conj image_product) (Single (nat (upsampled_region_size upsample_factor)))
              (real_of_int upsample_factor)
              (Some (sample_region_offset upsample_factor (round_shift upsample_factor
                 (integer_shift (unravel_index am shp) shp)))) = Inr y"
    and am2: "argmax (absolute (conj y)) = Inr am2"
    and eq: "phase_cross_correlation_traced reference_image moving_image upsample_factor space
               False None None overlap_ratio normalization
             = pcc_finish (all_ops space normalization upsample_factor) shp
                 (refine_shift upsample_factor
                    (round_shift upsample_factor (integer_shift (unravel_index am shp) shp))
                    (unravel_index am2 (shape y)))
                 (item (conj y) (unravel_index am2 (shape y)))
                 (intensity src_freq) (intensity target_freq) False"
    unfolding src_freq_def target_freq_def image_product_def shp_def by blast
  have "phase_cross_correlation reference_image moving_image upsample_factor space False
                 None None overlap_ratio normalization
        = Inr (map2 (\<lambda>n s. if n = 1 then 0 else s) shp
                 (refine_shift upsample_factor
                    (round_shift upsample_factor (integer_shift (unravel_index am shp) shp))
                    (unravel_index am2 (shape y))),
               compute_error (item (conj y) (unravel_index am2 (shape y)))
                 (intensity src_freq) (intensity target_freq),
               compute_phasediff (item (conj y) (unravel_index am2 (shape y))))"
    by (simp add: phase_cross_correlation_def eq snd_pcc_finish)
  then have res: "phase_cross_correlation reference_image moving_image upsample_factor space False
                 None None overlap_ratio normalization
        = Inr (map2 (\<lambda>n s. if n = 1 then 0 else s) shp
                        (map2 (\<lambda>s m. s + (real m - real_of_int centre)
                                         / real_of_int upsample_factor)
                           (map (\<lambda>s. round_half_even (s * real_of_int upsample_factor)
                                       / real_of_int upsample_factor)
                              (integer_shift (unravel_index am shp) shp))
                           (unravel_index am2 (shape y))),
                      compute_error (item (conj y) (unravel_index am2 (shape y)))
                        (sum_list (map Re (elems (multiply src_freq (conj src_freq)))))
                        (sum_list (map Re (elems (multiply target_freq (conj target_freq))))),
                      compute_phasediff (item (conj y) (unravel_index am2 (shape y))))"
    unfolding refine_shift_def round_shift_def intensity_def D .
  have y': "upsampled_dft (conj image_product) (Single (nat region)) (real_of_int upsample_factor)
              (Some (map (\<lambda>s. real_of_int centre - s * real_of_int upsample_factor)
                       (map (\<lambda>s. round_half_even (s * real_of_int upsample_factor)
                                   / real_of_int upsample_factor)
                          (integer_shift (unravel_index am shp) shp)))) = Inr y"
    using y unfolding sample_region_offset_def round_shift_def R D .
  from am y' am2 res False show ?thesis by blast
qed

theorem refinement_branch_witness:
  "valid_call \<lparr>shape = [2], dtype = Complex64, elems = [1, Complex (- 1) (- 2)]\<rparr>
     \<lparr>shape = [2], dtype = Complex64, elems = [1, 1]\<rparr> 2 ''fourier'' None
   \<and> (1 :: int) < 2
   \<and> (\<exists>am. argmax (absolute (ifftn (multiply
            \<lparr>shape = [2], dtype = Complex64, elems = [1, Complex (- 1) (- 2)]\<rparr>
            (conj \<lparr>shape = [2], dtype = Complex64, elems = [1, 1]\<rparr>)))) = Inr am
       \<and> (\<exists>patch pm.
         upsampled_dft (conj (multiply
               \<lparr>shape = [2], dtype = Complex64, elems = [1, Complex (- 1) (- 2)]\<rparr>
               (conj \<lparr>shape = [2], dtype = Complex64, elems = [1, 1]\<rparr>)))
             (Single 3) 2
             (Some (map (\<lambda>s. 1 - s * 2)
                      (map (\<lambda>s. round_half_even (s * 2) / 2)
                         (integer_shift (unravel_index am [2]) [2])))) = Inr patch
         \<and> argmax (absolute (conj patch)) = Inr pm
         \<and> phase_cross_correlation
               \<lparr>shape = [2], dtype = Complex64, elems = [1, Complex (- 1) (- 2)]\<rparr>
               \<lparr>shape = [2], dtype = Complex64, elems = [1, 1]\<rparr> 2 ''fourier'' False None None
               (3 / 10) None
             = Inr (map2 (\<lambda>n s. if n = 1 then 0 else s) [2 :: nat]
                      (map2 (\<lambda>s m. s + (real m - 1) / 2)
                         (map (\<lambda>s. round_half_even (s * 2) / 2)
                            (integer_shift (unravel_index am [2]) [2]))
                         (unravel_index pm (shape patch))),
                    compute_error (item (conj patch) (unravel_index pm (shape patch))) 6 2,
                    compute_phasediff (item (conj patch) (unravel_index pm (shape patch))))))"
proof -
  let ?r = "\<lparr>shape = [2], dtype = Complex64, elems = [1, Complex (- 1) (- 2)]\<rparr>"
  let ?m = "\<lparr>shape = [2], dtype = Complex64, elems = [1, 1]\<rparr>"
  have l: "lower ''fourier'' = ''fourier''" by (simp add: lower_def lower_char_def)
  have v: "valid_call ?r ?m 2 ''fourier'' None"
    by (simp add: valid_call_def well_formed_def l)
  have c: "\<lceil>real_of_int 2 * 1.5\<rceil> = 3" "\<lfloor>real_of_int (3::int) / 2\<rfloor> = 1" by simp_all
  have i: "sum_list (map Re (elems (multiply ?r (conj ?r)))) = 6"
    "sum_list (map Re (elems (multiply ?m (conj ?m)))) = 2"
    by (simp_all add: multiply_def conj_def)
  have sp: "spectrum ''fourier'' ?r = ?r" "spectrum ''fourier'' ?m = ?m"
    by (simp_all add: spectrum_def l)
  have cp: "cross_power ?r ?m dt None = multiply ?r (conj ?m)" for dt
    by (simp add: cross_power_def)
  note t = refinement_branch [OF v, of "3 / 10", unfolded sp cp i c]
  from t v show ?thesis by simp
qed

section \<open>The upsampled DFT as a chain of contractions\<close>

text \<open>
  C8. When the region sizes and the offsets have one entry per axis of the data, the
  upsampled DFT returns an array of shape \<open>region_size\<close> and of the element type of the
  data. It is obtained by contracting the data with one kernel per axis, from the last
  axis to the first; the kernel of axis \<open>d\<close> has shape \<open>(region_size[d], data.shape[d])\<close>
  and its entry \<open>(k, n)\<close> is \<open>exp(-2 pi i (k - axis_offsets[d]) freq(n))\<close>, with \<open>freq\<close> the
  FFT sample frequencies of \<open>data.shape[d]\<close> points at spacing \<open>upsample_factor\<close>, cast to
  the element type of the data (for real data the cast keeps the real part). Entry \<open>ks\<close>
  of the result is the sum over all indices \<open>js\<close> of the data of the product of the
  kernel entries \<open>(ks[d], js[d])\<close> times \<open>data[js]\<close>.
\<close>

theorem upsampled_dft_contraction:
  assumes lr: "length (region_sizes data region_size) = ndim data"
    and lo: "length (offsets_of data axis_offsets) = ndim data"
  defines "sizes \<equiv> region_sizes data region_size"
    and "offs \<equiv> offsets_of data axis_offsets"
  defines "props \<equiv> zip (shape data)
             (zip (region_sizes data region_size) (offsets_of data axis_offsets))"
  shows "\<exists>y. upsampled_dft data region_size upsample_factor axis_offsets = Inr y
     \<and> y = foldl (\<lambda>d p. tensordot (axis_kernel (dtype d) upsample_factor p) d) data (rev props)
     \<and> shape y = sizes \<and> dtype y = dtype data
     \<and> (\<forall>d < ndim data.
           shape (axis_kernel (dtype data) upsample_factor (props ! d))
             = [sizes ! d, shape data ! d]
           \<and> (\<forall>k < sizes ! d. \<forall>n < shape data ! d.
                 item (axis_kernel (dtype data) upsample_factor (props ! d)) [k, n]
                 = (let z = exp (- (\<i> * 2 * complex_of_real pi)
                               * complex_of_real ((real k - offs ! d)
                                   * (fftfreq (shape data ! d) upsample_factor ! n)))
                    in if is_complex (dtype data) then z else complex_of_real (Re z))))
     \<and> (\<forall>ks. valid_index ks sizes \<longrightarrow>
           item y ks = multisum (shape data)
             (\<lambda>js. kernel_prod (map (axis_kernel (dtype data) upsample_factor) props) ks js
                    * item data js))"
proof -
  define y where "y = upsampled_dft_loop (rev props) upsample_factor data"
  have eq: "upsampled_dft data region_size upsample_factor axis_offsets = Inr y"
    using lr lo by (simp add: upsampled_dft_eq y_def props_def)
  have fold: "y = foldl (\<lambda>d p. tensordot (axis_kernel (dtype d) upsample_factor p) d) data (rev props)"
    by (simp add: y_def upsampled_dft_loop_foldl)
  have sh: "shape y = sizes" using shape_upsampled_dft [OF eq] by (simp add: sizes_def)
  have dt: "dtype y = dtype data" by (simp add: y_def)
  have kern: "shape (axis_kernel (dtype data) upsample_factor (props ! d))
             = [sizes ! d, shape data ! d]
           \<and> (\<forall>k < sizes ! d. \<forall>n < shape data ! d.
                 item (axis_kernel (dtype data) upsample_factor (props ! d)) [k, n]
                 = (let z = exp (- (\<i> * 2 * complex_of_real pi)
                               * complex_of_real ((real k - offs ! d)
                                   * (fftfreq (shape data ! d) upsample_factor ! n)))
                    in if is_complex (dtype data) then z else complex_of_real (Re z)))"
    if d: "d < ndim data" for d
  proof -
    have pd: "props ! d = (shape data ! d, sizes ! d, offs ! d)"
      using d lr lo by (simp add: props_def sizes_def offs_def ndim_def)
    show ?thesis unfolding pd
      by (auto simp: item_axis_kernel im2pi_def)
  qed
  have pw: "item y ks = multisum (shape data)
             (\<lambda>js. kernel_prod (map (axis_kernel (dtype data) upsample_factor) props) ks js
                    * item data js)"
    if "valid_index ks sizes" for ks
    unfolding y_def props_def
    by (rule upsampled_dft_pointwise [OF lr lo]) (use that in \<open>simp add: sizes_def\<close>)
  from eq fold sh dt kern pw show ?thesis by blast
qed

theorem upsampled_dft_contraction_witness:
  "length (region_sizes \<lparr>shape = [2], dtype = Complex64, elems = [1, Complex 0 2]\<rparr> (Sizes [3]))
     = ndim \<lparr>shape = [2], dtype = Complex64, elems = [1, Complex 0 2]\<rparr>
   \<and> length (offsets_of \<lparr>shape = [2], dtype = Complex64, elems = [1, Complex 0 2]\<rparr> (Some [- 1]))
     = ndim \<lparr>shape = [2], dtype = Complex64, elems = [1, Complex 0 2]\<rparr>
   \<and> (\<exists>y. upsampled_dft \<lparr>shape = [2], dtype = Complex64, elems = [1, Complex 0 2]\<rparr>
              (Sizes [3]) 2 (Some [- 1]) = Inr y
          \<and> y = tensordot (axis_kernel Complex64 2 (2, 3, - 1))
                  \<lparr>shape = [2], dtype = Complex64, elems = [1, Complex 0 2]\<rparr>
          \<and> shape y = [3] \<and> dtype y = Complex64
          \<and> shape (axis_kernel Complex64 2 (2, 3, - 1)) = [3, 2]
          \<and> item (axis_kernel Complex64 2 (2, 3, - 1)) [1, 1]
              = exp (- (\<i> * 2 * complex_of_real pi)
                     * complex_of_real ((real 1 - (- 1)) * (fftfreq 2 2 ! 1)))
          \<and> item y [2]
              = multisum [2] (\<lambda>js. kernel_prod [axis_kernel Complex64 2 (2, 3, - 1)] [2] js
                    * item \<lparr>shape = [2], dtype = Complex64, elems = [1, Complex 0 2]\<rparr> js))"
proof -
  let ?d = "\<lparr>shape = [2], dtype = Complex64, elems = [1, Complex 0 2]\<rparr>"
  have lr: "length (region_sizes ?d (Sizes [3])) = ndim ?d"
    and lo: "length (offsets_of ?d (Some [- 1])) = ndim ?d"
    by (simp_all add: region_sizes_def offsets_of_def ndim_def)
  have rs: "region_sizes ?d (Sizes [3]) = [3]" and os: "offsets_of ?d (Some [- 1]) = [- 1]"
    by (simp_all add: region_sizes_def offsets_of_def)
  from upsampled_dft_contraction [OF lr lo, of 2]
  obtain y where y: "upsampled_dft ?d (Sizes [3]) 2 (Some [- 1]) = Inr y"
    and f: "y = foldl (\<lambda>d p. tensordot (axis_kernel (dtype d) 2 p) d) ?d
                  (rev (zip (shape ?d) (zip (region_sizes ?d (Sizes [3])) (offsets_of ?d (Some [- 1])))))"
    and s: "shape y = region_sizes ?d (Sizes [3])" and t: "dtype y = dtype ?d"
    and k: "\<forall>d < ndim ?d.
           shape (axis_kernel (dtype ?d) 2
                   (zip (shape ?d) (zip (region_sizes ?d (Sizes [3])) (offsets_of ?d (Some [- 1]))) ! d))
             = [region_sizes ?d (Sizes [3]) ! d, shape ?d ! d]
           \<and> (\<forall>k < region_sizes ?d (Sizes [3]) ! d. \<forall>n < shape ?d ! d.
                 item (axis_kernel (dtype ?d) 2
                   (zip (shape ?d) (zip (region_sizes ?d (Sizes [3])) (offsets_of ?d (Some [- 1]))) ! d))
                   [k, n]
                 = (let z = exp (- (\<i> * 2 * complex_of_real pi)
                               * complex_of_real ((real k - offsets_of ?d (Some [- 1]) ! d)
                                   * (fftfreq (shape ?d ! d) 2 ! n)))
                    in if is_complex (dtype ?d) then z else complex_of_real (Re z)))"
    and p: "\<forall>ks. valid_index ks (region_sizes ?d (Sizes [3])) \<longrightarrow>
           item y ks = multisum (shape ?d)
             (\<lambda>js. kernel_prod (map (axis_kernel (dtype ?d) 2)
                      (zip (shape ?d) (zip (region_sizes ?d (Sizes [3])) (offsets_of ?d (Some [- 1])))))
                    ks js * item ?d js)"
    by blast
  have 1: "y = tensordot (axis_kernel Complex64 2 (2, 3, - 1)) ?d"
    using f by (simp add: rs os)
  have 2: "shape y = [3]" "dtype y = Complex64" using s t by (simp_all add: rs)
  from k have "shape (axis_kernel Complex64 2 (2, 3, - 1)) = [3, 2]
     \<and> (\<forall>k < 3. \<forall>n < 2. item (axis_kernel Complex64 2 (2, 3, - 1)) [k, n]
           = exp (- (\<i> * 2 * complex_of_real pi)
                   * complex_of_real ((real k - (- 1)) * (fftfreq 2 2 ! n))))"
    by (simp add: rs os ndim_def)
  then have 3: "shape (axis_kernel Complex64 2 (2, 3, - 1)) = [3, 2]"
    and 4: "item (axis_kernel Complex64 2 (2, 3, - 1)) [1, 1]
              = exp (- (\<i> * 2 * complex_of_real pi)
                     * complex_of_real ((real 1 - (- 1)) * (fftfreq 2 2 ! 1)))"
    by simp_all
  have "valid_index [2] (region_sizes ?d (Sizes [3]))" by (simp add: rs)
  with p have 5: "item y [2]
              = multisum [2] (\<lambda>js. kernel_prod [axis_kernel Complex64 2 (2, 3, - 1)] [2] js
                    * item ?d js)"
    by (simp add: rs os)
  from lr lo y 1 2 3 4 5 show ?thesis by blast
qed

section \<open>The upsampled DFT and the zero-padded DFT\<close>




end
